theory Spec2Isabelle
  imports Main "HOL-Library.Sublist"
begin

section \<open>JavaScript values\<close>

text \<open>
  The values that travel through the importer are the ones \<open>response.json()\<close> and
  \<open>JSON.parse\<close> produce, plus \<open>undefined\<close> for an absent property. Numbers are kept as
  integers: the code only tests them for truthiness and interpolates them into messages.
  An object is an association list; a lookup takes the first binding of a key.
  Strings are byte lists (UTF-8).
\<close>

datatype jsval =
    JUndefined
  | JNull
  | JBool bool
  | JNum int
  | JStr string
  | JArr "jsval list"
  | JObj "(string \<times> jsval) list"

text \<open>ToBoolean, as used by \<open>if (x)\<close>, \<open>!x\<close> and \<open>x || y\<close>.\<close>

fun truthy :: "jsval \<Rightarrow> bool" where
  "truthy JUndefined = False"
| "truthy JNull = False"
| "truthy (JBool b) = b"
| "truthy (JNum n) = (n \<noteq> 0)"
| "truthy (JStr s) = (s \<noteq> [])"
| "truthy (JArr xs) = True"
| "truthy (JObj kvs) = True"

text \<open>\<open>a || b\<close>\<close>

definition js_or :: "jsval \<Rightarrow> jsval \<Rightarrow> jsval" where
  "js_or a b = (if truthy a then a else b)"

text \<open>\<open>a ?? b\<close>: only \<open>null\<close> and \<open>undefined\<close> give way to \<open>b\<close>.\<close>

definition js_nullish :: "jsval \<Rightarrow> jsval \<Rightarrow> jsval" where
  "js_nullish a b = (if a = JUndefined \<or> a = JNull then b else a)"

text \<open>\<open>typeof x === "string"\<close>\<close>

fun is_string :: "jsval \<Rightarrow> bool" where
  "is_string (JStr s) = True"
| "is_string v = False"

subsection \<open>Decimal rendering and string conversion\<close>

definition digit_char :: "nat \<Rightarrow> char" where
  "digit_char d = ''0123456789'' ! d"

fun string_of_nat :: "nat \<Rightarrow> string" where
  "string_of_nat n =
     (if n < 10 then [digit_char n] else string_of_nat (n div 10) @ [digit_char (n mod 10)])"

declare string_of_nat.simps [simp del]

definition string_of_int :: "int \<Rightarrow> string" where
  "string_of_int i = (if i < 0 then CHR ''-'' # string_of_nat (nat (- i)) else string_of_nat (nat i))"

text \<open>\<open>xs.join(sep)\<close> on an array of strings.\<close>

fun join :: "string \<Rightarrow> string list \<Rightarrow> string" where
  "join sep [] = []"
| "join sep [x] = x"
| "join sep (x # y # ys) = x @ sep @ join sep (y # ys)"

text \<open>
  ToString, as a template literal applies it to an interpolated value. An array joins
  its elements with a comma, \<open>null\<close> and \<open>undefined\<close> elements giving the empty string.
\<close>

fun toString :: "jsval \<Rightarrow> string" where
  "toString JUndefined = ''undefined''"
| "toString JNull = ''null''"
| "toString (JBool b) = (if b then ''true'' else ''false'')"
| "toString (JNum n) = string_of_int n"
| "toString (JStr s) = s"
| "toString (JArr xs) =
     join '','' (map (\<lambda>x. if x = JUndefined \<or> x = JNull then [] else toString x) xs)"
| "toString (JObj kvs) = ''[object Object]''"

section \<open>The tab title: \<open>filename.replace(/\.[^/.]+$/, "") || "Imported Workflow"\<close>\<close>

text \<open>\<open>[^/.]\<close>: any character but a slash and a dot.\<close>

definition ext_char :: "char \<Rightarrow> bool" where
  "ext_char c = (c \<noteq> CHR ''/'' \<and> c \<noteq> CHR ''.'')"

text \<open>
  Does \<open>\.[^/.]+$\<close> match at the very start of \<open>s\<close>? A dot, then one or more
  \<open>[^/.]\<close>, then the end of the input.
\<close>

fun matches_ext :: "string \<Rightarrow> bool" where
  "matches_ext [] = False"
| "matches_ext (c # r) = (c = CHR ''.'' \<and> r \<noteq> [] \<and> list_all ext_char r)"

text \<open>
  \<open>replace\<close> with a regular expression that has no \<open>g\<close> flag rewrites the leftmost
  match only: the scan keeps every character until the pattern matches at the current
  position, and there the match (which reaches the end of the input) is replaced by
  the empty string.
\<close>

fun replace_ext :: "string \<Rightarrow> string" where
  "replace_ext [] = []"
| "replace_ext (c # r) = (if matches_ext (c # r) then [] else c # replace_ext r)"

definition tabName :: "string \<Rightarrow> string" where
  "tabName filename =
     (let stem = replace_ext filename in if stem \<noteq> [] then stem else ''Imported Workflow'')"

text \<open>
  The spec's wording, for comparison: "the filename with only its final extension
  (last \<open>.\<close> segment) removed": everything from the last dot on is dropped, and a name
  without a dot has no segment to drop.
\<close>

fun strip_last_segment :: "string \<Rightarrow> string" where
  "strip_last_segment [] = []"
| "strip_last_segment (c # r) =
     (if c = CHR ''.'' \<and> CHR ''.'' \<notin> set r then [] else c # strip_last_segment r)"

definition spec_title :: "string \<Rightarrow> string" where
  "spec_title filename =
     (let stem = (if CHR ''.'' \<in> set filename then strip_last_segment filename else filename)
      in if stem = [] then ''Imported Workflow'' else stem)"

text \<open>
  The final extension read from the end of the name: the longest run of \<open>[^/.]\<close>
  characters that ends the name, when it is not empty and a dot stands before it.
\<close>

definition final_extension :: "string \<Rightarrow> string option" where
  "final_extension filename =
     (let ext = rev (takeWhile ext_char (rev filename));
          rest = dropWhile ext_char (rev filename)
      in if ext \<noteq> [] \<and> rest \<noteq> [] \<and> hd rest = CHR ''.'' then Some ext else None)"

definition or_default :: "string \<Rightarrow> string" where
  "or_default stem = (if stem = [] then ''Imported Workflow'' else stem)"

section \<open>Collaborators: the extraction service, the host application, the JS runtime\<close>

text \<open>A \<open>File\<close>: the code reads \<open>file.name\<close> and \<open>file.type\<close> (the declared MIME type).\<close>

record js_file =
  file_name :: string
  file_type :: string

text \<open>
  A thrown value. The code only ever reads its \<open>message\<close>, and what the collaborators
  throw (the errors of \<open>fetch\<close>, \<open>response.json()\<close>, \<open>JSON.parse\<close> and the host) are
  objects that have one.
\<close>

datatype js_error = JsError (message: string)

text \<open>
  The \<open>Response\<close> of \<open>api.fetchApi\<close>: \<open>response.ok\<close>, \<open>response.status\<close>, and what
  \<open>await response.json()\<close> gives (the parsed body, or the error it rejects with).
\<close>

record response =
  ok :: bool
  status :: nat
  json :: "js_error + jsval"

text \<open>
  What the importer calls and does not define. \<open>fetchApi\<close> and \<open>loadGraphData\<close> act on
  the outside world (of type \<open>'w\<close>) and either throw or return; \<open>JSON_parse\<close> is pure.
  The message of the TypeError raised by a property read on \<open>null\<close> is the engine's.
\<close>

record 'w env =
  fetchApi :: "js_file \<Rightarrow> 'w \<Rightarrow> (js_error + response) \<times> 'w"
  loadGraphData :: "jsval \<Rightarrow> bool \<Rightarrow> bool \<Rightarrow> string \<Rightarrow> 'w \<Rightarrow> js_error option \<times> 'w"
  JSON_parse :: "string \<Rightarrow> js_error + jsval"
  nullPropertyError :: "string \<Rightarrow> js_error"

text \<open>The calls issued so far (oldest first), next to the state of the outside world.\<close>

datatype call =
    FetchApi js_file
  | LoadGraphData jsval bool bool string

record 'w world =
  calls :: "call list"
  host :: 'w

text \<open>\<open>api.fetchApi("/workflow_importer/extract_from_data", {method: "POST", body: formData})\<close>\<close>

definition call_fetchApi :: "'w env \<Rightarrow> js_file \<Rightarrow> 'w world \<Rightarrow> (js_error + response) \<times> 'w world" where
  "call_fetchApi env f wd =
     (let (r, h) = fetchApi env f (host wd)
      in (r, \<lparr>calls = calls wd @ [FetchApi f], host = h\<rparr>))"

text \<open>\<open>app.loadGraphData(graphData, true, true, tabName)\<close>\<close>

definition call_loadGraphData ::
  "'w env \<Rightarrow> jsval \<Rightarrow> bool \<Rightarrow> bool \<Rightarrow> string \<Rightarrow> 'w world \<Rightarrow> js_error option \<times> 'w world" where
  "call_loadGraphData env g clean restore_view title wd =
     (let (r, h) = loadGraphData env g clean restore_view title (host wd)
      in (r, \<lparr>calls = calls wd @ [LoadGraphData g clean restore_view title], host = h\<rparr>))"

text \<open>
  \<open>v.k\<close> for the property names the code reads (\<open>success\<close>, \<open>error\<close>, \<open>workflow\<close>,
  \<open>prompt\<close>, \<open>info\<close>): the binding of an object, \<open>undefined\<close> on anything else.
\<close>

fun field :: "jsval \<Rightarrow> string \<Rightarrow> jsval" where
  "field (JObj kvs) k = (case map_of kvs k of Some v \<Rightarrow> v | None \<Rightarrow> JUndefined)"
| "field v k = JUndefined"

text \<open>The same read where the value may be \<open>null\<close>: that throws a TypeError.\<close>

definition get_property :: "'w env \<Rightarrow> jsval \<Rightarrow> string \<Rightarrow> js_error + jsval" where
  "get_property env v k =
     (if v = JNull \<or> v = JUndefined then Inl (nullPropertyError env k) else Inr (field v k))"

section \<open>The Extraction Client: \<open>extractWorkflowFromData\<close>\<close>

datatype extract_result =
    ExtractSuccess (workflow: jsval) (prompt: jsval) (info: jsval)
  | ExtractFailure (extract_error: jsval)

text \<open>
  The \<open>try\<close> block once \<open>await api.fetchApi(...)\<close> has settled: \<open>Inl\<close> is an
  exception leaving the block.
\<close>

definition extract_try :: "'w env \<Rightarrow> js_error + response \<Rightarrow> js_error + extract_result" where
  "extract_try env fetched =
     (case fetched of
        Inl err \<Rightarrow> Inl err
      | Inr resp \<Rightarrow>
          if \<not> ok resp
          then Inl (JsError (''Extraction failed: '' @ string_of_nat (status resp)))
          else (case json resp of
                  Inl err \<Rightarrow> Inl err
                | Inr result \<Rightarrow>
                    (case get_property env result ''success'' of
                       Inl err \<Rightarrow> Inl err
                     | Inr success \<Rightarrow>
                         if \<not> truthy success
                         then Inr (ExtractFailure
                                (js_or (field result ''error'') (JStr ''No workflow found in image'')))
                         else Inr (ExtractSuccess (field result ''workflow'')
                                (field result ''prompt'') (field result ''info'')))))"

text \<open>
  The \<open>try\<close> block with its \<open>catch\<close>, which turns every exception into a failure
  result: what the method returns once the fetch has settled.
\<close>

definition extract_settle :: "'w env \<Rightarrow> js_error + response \<Rightarrow> extract_result" where
  "extract_settle env fetched =
     (case extract_try env fetched of
        Inl err \<Rightarrow> ExtractFailure (JStr (''Extraction failed: '' @ message err))
      | Inr r \<Rightarrow> r)"

text \<open>The whole method, with no other event between the request and its answer.\<close>

definition extractWorkflowFromData ::
  "'w env \<Rightarrow> js_file \<Rightarrow> 'w world \<Rightarrow> extract_result \<times> 'w world" where
  "extractWorkflowFromData env f wd =
     (let (fetched, wd') = call_fetchApi env f wd
      in (extract_settle env fetched, wd'))"

section \<open>The Graph Loader Adapter: \<open>loadWorkflow\<close>\<close>

text \<open>What \<open>processImageFile\<close> and \<open>loadWorkflow\<close> return: \<open>{success, error}\<close>.\<close>

datatype result = ResultOk | ResultFail (result_error: jsval)

text \<open>\<open>typeof x === "string" ? JSON.parse(x) : x\<close>\<close>

definition parse_if_string :: "'w env \<Rightarrow> jsval \<Rightarrow> js_error + jsval" where
  "parse_if_string env x = (case x of JStr s \<Rightarrow> JSON_parse env s | _ \<Rightarrow> Inr x)"

text \<open>The value of \<open>graphData\<close> after the \<open>if\<close>/\<open>else if\<close>, or the exception of \<open>JSON.parse\<close>.\<close>

definition graphData_of :: "'w env \<Rightarrow> jsval \<Rightarrow> jsval \<Rightarrow> js_error + jsval" where
  "graphData_of env workflowJson promptJson =
     (if truthy workflowJson then parse_if_string env workflowJson
      else if truthy promptJson then parse_if_string env promptJson
      else Inr JNull)"

definition loadWorkflow ::
  "'w env \<Rightarrow> jsval \<Rightarrow> jsval \<Rightarrow> string \<Rightarrow> 'w world \<Rightarrow> result \<times> 'w world" where
  "loadWorkflow env workflowJson promptJson filename wd =
     (case graphData_of env workflowJson promptJson of
        Inl err \<Rightarrow> (ResultFail (JStr (''Failed to load workflow: '' @ message err)), wd)
      | Inr graphData \<Rightarrow>
          if \<not> truthy graphData
          then (ResultFail (JStr ''No valid workflow data found''), wd)
          else (let (thrown, wd') = call_loadGraphData env graphData True True (tabName filename) wd
                in case thrown of
                     Some err \<Rightarrow> (ResultFail (JStr (''Failed to load workflow: '' @ message err)), wd')
                   | None \<Rightarrow> (ResultOk, wd')))"

text \<open>
  The same method cut at its only \<open>await\<close>: up to the call of the host, where it
  either has returned already or has called \<open>app.loadGraphData(graphData, true, true,
  tabName)\<close>, and from the moment that call settles.
\<close>

datatype load_step = LoadDone result | LoadCall jsval string

definition load_begin :: "'w env \<Rightarrow> jsval \<Rightarrow> jsval \<Rightarrow> string \<Rightarrow> load_step" where
  "load_begin env workflowJson promptJson filename =
     (case graphData_of env workflowJson promptJson of
        Inl err \<Rightarrow> LoadDone (ResultFail (JStr (''Failed to load workflow: '' @ message err)))
      | Inr graphData \<Rightarrow>
          if \<not> truthy graphData
          then LoadDone (ResultFail (JStr ''No valid workflow data found''))
          else LoadCall graphData (tabName filename))"

definition load_settle :: "js_error option \<Rightarrow> result" where
  "load_settle thrown =
     (case thrown of
        Some err \<Rightarrow> ResultFail (JStr (''Failed to load workflow: '' @ message err))
      | None \<Rightarrow> ResultOk)"

section \<open>One file: \<open>processImageFile\<close>\<close>

text \<open>
  The method has no \<open>try\<close> of its own; its callees catch everything, so it always
  returns. The sum type keeps the shape the caller's \<open>try\<close>/\<open>catch\<close> expects.
\<close>

definition processImageFile ::
  "'w env \<Rightarrow> js_file \<Rightarrow> 'w world \<Rightarrow> (js_error + result) \<times> 'w world" where
  "processImageFile env f wd =
     (let (extractResult, wd1) = extractWorkflowFromData env f wd
      in case extractResult of
           ExtractFailure e \<Rightarrow> (Inr (ResultFail e), wd1)
         | ExtractSuccess w p i \<Rightarrow>
             (let (loadResult, wd2) = loadWorkflow env w p (file_name f) wd1
              in (Inr loadResult, wd2)))"

section \<open>The dialog\<close>

record status_el =
  display :: string
  textContent :: string
  whiteSpace :: string
  color :: string

datatype status_type = Info | Success | Warning | Error

fun colors :: "status_type \<Rightarrow> string" where
  "colors Info = ''#ccc''"
| "colors Success = ''#4CAF50''"
| "colors Warning = ''#FF9800''"
| "colors Error = ''#F44336''"

text \<open>
  The fields of \<open>WorkflowImportDialog\<close> the logic reads or writes. \<open>statusEl\<close> is \<open>null\<close>
  until \<open>show()\<close> has built the dialog once.
\<close>

record dialog =
  isOpen :: bool
  isProcessing :: bool
  overlay_display :: string
  statusEl :: "status_el option"

text \<open>The constructor.\<close>

definition new_dialog :: dialog where
  "new_dialog = \<lparr>isOpen = False, isProcessing = False, overlay_display = [], statusEl = None\<rparr>"

definition close :: "dialog \<Rightarrow> dialog" where
  "close d = d\<lparr>isOpen := False, overlay_display := ''none'', isProcessing := False\<rparr>"

definition show_dialog :: "dialog \<Rightarrow> dialog" where
  "show_dialog d =
     d\<lparr>isOpen := True, isProcessing := False,
       statusEl := Some \<lparr>display = ''none'', textContent = [], whiteSpace = [], color = ''#ccc''\<rparr>,
       overlay_display := ''flex''\<rparr>"

definition toggle :: "dialog \<Rightarrow> dialog" where
  "toggle d = (if isOpen d then close d else show_dialog d)"

definition showStatus :: "string \<Rightarrow> status_type \<Rightarrow> dialog \<Rightarrow> dialog" where
  "showStatus msg ty d =
     (case statusEl d of
        None \<Rightarrow> d
      | Some el \<Rightarrow>
          d\<lparr>statusEl := Some (el\<lparr>display := ''block'', textContent := msg,
                                  whiteSpace := ''pre-wrap'', color := colors ty\<rparr>)\<rparr>)"

section \<open>The Batch Processor: \<open>handleFileSelect\<close>\<close>

text \<open>\<open>f.type.startsWith("image/")\<close>\<close>

definition is_image :: "js_file \<Rightarrow> bool" where
  "is_image f = prefix ''image/'' (file_type f)"

text \<open>The local variables of one invocation.\<close>

record locals =
  successCount :: nat
  failCount :: nat
  errors :: "string list"

definition locals0 :: locals where
  "locals0 = \<lparr>successCount = 0, failCount = 0, errors = []\<rparr>"

text \<open>
  The synchronous prefix, up to the loop. \<open>files\<close> is \<open>None\<close> for \<open>null\<close>/\<open>undefined\<close>.
  The second component is \<open>imageFiles\<close> when a batch starts, \<open>None\<close> on an early return.
\<close>

definition handleFileSelect_begin :: "js_file list option \<Rightarrow> dialog \<Rightarrow> dialog \<times> js_file list option" where
  "handleFileSelect_begin files d =
     (case files of
        None \<Rightarrow> (d, None)
      | Some fs \<Rightarrow>
          if length fs = 0 then (d, None)
          else if isProcessing d
          then (showStatus ''Please wait for current import to complete...'' Warning d, None)
          else (let imageFiles = filter is_image fs
                in if length imageFiles = 0
                   then (showStatus ''No valid image files selected.'' Error d, None)
                   else (showStatus (''Processing '' @ string_of_nat (length imageFiles) @ '' image(s)...'')
                           Info (d\<lparr>isProcessing := True\<rparr>),
                         Some imageFiles)))"

text \<open>
  What an iteration does with the outcome of \<open>await this.processImageFile(file)\<close>: the
  \<open>if\<close>/\<open>else\<close> on \<open>result.success\<close>, and the \<open>catch\<close> for an exception.
\<close>

definition count_outcome :: "js_file \<Rightarrow> js_error + result \<Rightarrow> locals \<Rightarrow> locals" where
  "count_outcome f outcome v =
     (case outcome of
        Inr res \<Rightarrow>
          (case res of
             ResultOk \<Rightarrow> v\<lparr>successCount := successCount v + 1\<rparr>
           | ResultFail e \<Rightarrow>
               v\<lparr>failCount := failCount v + 1,
                 errors := errors v @ [file_name f @ '': '' @ toString e]\<rparr>)
      | Inl err \<Rightarrow>
          v\<lparr>failCount := failCount v + 1,
            errors := errors v @ [file_name f @ '': '' @ message err]\<rparr>)"

text \<open>One iteration of \<open>for (const file of imageFiles)\<close>.\<close>

definition loop_body ::
  "'w env \<Rightarrow> js_file \<Rightarrow> dialog \<times> locals \<times> 'w world \<Rightarrow> dialog \<times> locals \<times> 'w world" where
  "loop_body env f s =
     (case s of (d, v, wd) \<Rightarrow>
        (let d1 = showStatus (''Processing: '' @ file_name f @ ''...'') Info d;
             (outcome, wd1) = processImageFile env f wd
         in (d1, count_outcome f outcome v, wd1)))"

fun for_loop ::
  "'w env \<Rightarrow> js_file list \<Rightarrow> dialog \<times> locals \<times> 'w world \<Rightarrow> dialog \<times> locals \<times> 'w world" where
  "for_loop env [] s = s"
| "for_loop env (f # fs) s = for_loop env fs (loop_body env f s)"

text \<open>The check mark U+2713 of the success message, in UTF-8.\<close>

definition check_mark :: string where
  "check_mark = [CHR 0xE2, CHR 0x9C, CHR 0x93]"

definition newline :: string where
  "newline = [CHR 0x0A]"

text \<open>
  The code after the loop. The second component is the delays of the \<open>setTimeout\<close>
  calls made; the callback is always \<open>() => this.close()\<close>.
\<close>

definition handleFileSelect_end :: "locals \<Rightarrow> dialog \<Rightarrow> dialog \<times> nat list" where
  "handleFileSelect_end v d =
     (let d1 = d\<lparr>isProcessing := False\<rparr>
      in if successCount v > 0 \<and> failCount v = 0
         then (showStatus (check_mark @ '' Successfully imported '' @ string_of_nat (successCount v)
                             @ '' workflow(s)!'') Success d1,
               [1500])
         else if successCount v > 0 \<and> failCount v > 0
         then (showStatus (''Imported '' @ string_of_nat (successCount v) @ '' workflow(s), ''
                             @ string_of_nat (failCount v) @ '' failed:'' @ newline
                             @ join newline (errors v)) Warning d1,
               [])
         else (showStatus (''Failed to import workflows:'' @ newline @ join newline (errors v)) Error d1,
               []))"

text \<open>
  The sequential reading: an invocation that nothing interleaves with, every \<open>await\<close>
  resuming before any other event is handled. The result is the dialog, the timers set,
  and the world.
\<close>

definition handleFileSelect ::
  "'w env \<Rightarrow> js_file list option \<Rightarrow> dialog \<Rightarrow> 'w world \<Rightarrow> dialog \<times> nat list \<times> 'w world" where
  "handleFileSelect env files d wd =
     (case handleFileSelect_begin files d of
        (d1, None) \<Rightarrow> (d1, [], wd)
      | (d1, Some imageFiles) \<Rightarrow>
          (case for_loop env imageFiles (d1, locals0, wd) of
             (d2, v, wd2) \<Rightarrow>
               (case handleFileSelect_end v d2 of (d3, ts) \<Rightarrow> (d3, ts, wd2))))"

section \<open>The event loop\<close>

text \<open>
  \<open>handleFileSelect\<close> is \<open>async\<close>. An invocation runs until it reaches an \<open>await\<close> whose
  promise is pending, and goes on, in a later turn of the event loop, when that promise
  has settled; in between the browser handles other events (a click, a key, a drop, a
  timer), and other invocations may be in flight. An invocation waits in two places: for
  the extraction request of the file at hand (\<open>api.fetchApi\<close> and \<open>response.json()\<close>,
  taken together), and for \<open>app.loadGraphData\<close>. A request enters the list of calls when
  it is made, and the world answers it when the invocation goes on.

  A task is a suspended invocation: its constant \<open>imageFiles\<close>, the file at hand, what
  it waits for, the files its loop has not reached yet and its other local variables.
  The system is the dialog, the suspended invocations, the pending
  \<open>setTimeout(() => this.close(), delay)\<close> timers and the world.
\<close>

datatype awaiting = Fetching | Loading jsval string

record task =
  imageFiles :: "js_file list"
  current :: js_file
  awaits :: awaiting
  todo :: "js_file list"
  vars :: locals

record 'w system =
  dialog :: dialog
  tasks :: "task list"
  timers :: "nat list"
  world :: "'w world"

datatype event =
    Toggle
  | Show
  | Close
  | Select "js_file list option"
  | Resume nat
  | Timeout nat

definition init :: "'w world \<Rightarrow> 'w system" where
  "init wd = \<lparr>dialog = new_dialog, tasks = [], timers = [], world = wd\<rparr>"

definition remove_nth :: "nat \<Rightarrow> 'a list \<Rightarrow> 'a list" where
  "remove_nth i xs = take i xs @ drop (Suc i) xs"

text \<open>
  The head of the loop, reached with the files \<open>fs\<close> left. With no file left the code
  after the loop runs and the invocation is over. Otherwise the next iteration starts:
  it shows the file's name and sends the extraction request, and the invocation is
  suspended.
\<close>

definition next_iteration ::
  "js_file list \<Rightarrow> js_file list \<Rightarrow> locals \<Rightarrow> 'w system \<Rightarrow> 'w system \<times> task option" where
  "next_iteration batch fs v s =
     (case fs of
        [] \<Rightarrow>
          (case handleFileSelect_end v (dialog s) of
             (d1, ts) \<Rightarrow> (s\<lparr>dialog := d1, timers := timers s @ ts\<rparr>, None))
      | f # rest \<Rightarrow>
          (s\<lparr>dialog := showStatus (''Processing: '' @ file_name f @ ''...'') Info (dialog s),
             world := (world s)\<lparr>calls := calls (world s) @ [FetchApi f]\<rparr>\<rparr>,
           Some \<lparr>imageFiles = batch, current = f, awaits = Fetching, todo = rest, vars = v\<rparr>))"

text \<open>
  \<open>processImageFile\<close> has settled for the file at hand of task \<open>i\<close>: the outcome is
  counted and the loop goes to its head.
\<close>

definition file_done :: "nat \<Rightarrow> js_error + result \<Rightarrow> 'w system \<Rightarrow> 'w system" where
  "file_done i outcome s =
     (let t = tasks s ! i
      in case next_iteration (imageFiles t) (todo t)
                (count_outcome (current t) outcome (vars t)) s of
           (s1, None) \<Rightarrow> s1\<lparr>tasks := remove_nth i (tasks s1)\<rparr>
         | (s1, Some t1) \<Rightarrow> s1\<lparr>tasks := (tasks s1)[i := t1]\<rparr>)"

text \<open>
  Task \<open>i\<close> goes on. After the extraction request: the world answers,
  \<open>extractWorkflowFromData\<close> returns, and \<open>processImageFile\<close> either returns the failure
  or enters \<open>loadWorkflow\<close>, which returns at once or calls the host and waits. After the
  call of the host: the world answers and \<open>loadWorkflow\<close> returns.
\<close>

definition resume :: "'w env \<Rightarrow> nat \<Rightarrow> 'w system \<Rightarrow> 'w system" where
  "resume env i s =
     (let t = tasks s ! i
      in case awaits t of
           Fetching \<Rightarrow>
             (let (fetched, h) = fetchApi env (current t) (host (world s));
                  s1 = s\<lparr>world := (world s)\<lparr>host := h\<rparr>\<rparr>
              in case extract_settle env fetched of
                   ExtractFailure e \<Rightarrow> file_done i (Inr (ResultFail e)) s1
                 | ExtractSuccess w p i0 \<Rightarrow>
                     (case load_begin env w p (file_name (current t)) of
                        LoadDone res \<Rightarrow> file_done i (Inr res) s1
                      | LoadCall g title \<Rightarrow>
                          s1\<lparr>world := (world s1)
                                \<lparr>calls := calls (world s1) @ [LoadGraphData g True True title]\<rparr>,
                             tasks := (tasks s1)[i := t\<lparr>awaits := Loading g title\<rparr>]\<rparr>))
         | Loading g title \<Rightarrow>
             (let (thrown, h) = loadGraphData env g True True title (host (world s));
                  s1 = s\<lparr>world := (world s)\<lparr>host := h\<rparr>\<rparr>
              in file_done i (Inr (load_settle thrown)) s1))"

text \<open>
  \<open>Toggle\<close>, \<open>Show\<close>, \<open>Close\<close>: the shortcut or toolbar button, and the close button or
  backdrop. \<open>Select files\<close>: a \<open>change\<close> or \<open>drop\<close> event calls \<open>handleFileSelect(files)\<close>,
  which runs up to its first pending \<open>await\<close>. \<open>Resume i\<close>: the promise the \<open>i\<close>-th
  suspended invocation waits for has settled. \<open>Timeout i\<close>: the \<open>i\<close>-th pending timer
  fires and calls \<open>close()\<close>. An index out of range is no event.
\<close>

definition step :: "'w env \<Rightarrow> event \<Rightarrow> 'w system \<Rightarrow> 'w system" where
  "step env ev s =
     (case ev of
        Toggle \<Rightarrow> s\<lparr>dialog := toggle (dialog s)\<rparr>
      | Show \<Rightarrow> s\<lparr>dialog := show_dialog (dialog s)\<rparr>
      | Close \<Rightarrow> s\<lparr>dialog := close (dialog s)\<rparr>
      | Select files \<Rightarrow>
          (case handleFileSelect_begin files (dialog s) of
             (d1, None) \<Rightarrow> s\<lparr>dialog := d1\<rparr>
           | (d1, Some fs) \<Rightarrow>
               (case next_iteration fs fs locals0 (s\<lparr>dialog := d1\<rparr>) of
                  (s1, None) \<Rightarrow> s1
                | (s1, Some t) \<Rightarrow> s1\<lparr>tasks := tasks s1 @ [t]\<rparr>))
      | Resume i \<Rightarrow> if i < length (tasks s) then resume env i s else s
      | Timeout i \<Rightarrow>
          if i < length (timers s)
          then s\<lparr>dialog := close (dialog s), timers := remove_nth i (timers s)\<rparr>
          else s)"

definition run :: "'w env \<Rightarrow> event list \<Rightarrow> 'w system \<Rightarrow> 'w system" where
  "run env evs s = foldl (\<lambda>s ev. step env ev s) s evs"

text \<open>Is every \<open>Select\<close> of the sequence handled while the dialog is open?\<close>

fun selects_while_open :: "'w env \<Rightarrow> event list \<Rightarrow> 'w system \<Rightarrow> bool" where
  "selects_while_open env [] s = True"
| "selects_while_open env (ev # evs) s =
     ((case ev of Select files \<Rightarrow> isOpen (dialog s) | _ \<Rightarrow> True)
      \<and> selects_while_open env evs (step env ev s))"

text \<open>Is a call a request to the extraction service?\<close>

fun is_fetch :: "call \<Rightarrow> bool" where
  "is_fetch (FetchApi f) = True"
| "is_fetch (LoadGraphData g clean restore_view title) = False"

text \<open>
  The bookkeeping of a suspended invocation: every image file is counted, at hand or
  still to do, every failure has its message, and the batch holds image files only.
\<close>

definition task_ok :: "task \<Rightarrow> bool" where
  "task_ok t =
     (successCount (vars t) + failCount (vars t) + 1 + length (todo t) = length (imageFiles t)
      \<and> length (errors (vars t)) = failCount (vars t)
      \<and> list_all is_image (imageFiles t))"

text \<open>Two states of the system that differ at most in what the status area shows.\<close>

definition same_but_status :: "'w system \<Rightarrow> 'w system \<Rightarrow> bool" where
  "same_but_status s s' =
     (tasks s' = tasks s \<and> world s' = world s \<and> timers s' = timers s
      \<and> isOpen (dialog s') = isOpen (dialog s)
      \<and> isProcessing (dialog s') = isProcessing (dialog s)
      \<and> overlay_display (dialog s') = overlay_display (dialog s)
      \<and> (statusEl (dialog s') = None) = (statusEl (dialog s) = None))"

text \<open>The flags of a state agree: a dialog that is processing is open.\<close>

definition open_while_processing :: "'w system \<Rightarrow> bool" where
  "open_while_processing s = (isProcessing (dialog s) \<longrightarrow> isOpen (dialog s))"

text \<open>
  An invocation that nothing interleaves with, in the event loop: after the selection,
  the only events are its own promises settling, \<open>n\<close> times in a row.
\<close>

definition drain :: "'w env \<Rightarrow> nat \<Rightarrow> 'w system \<Rightarrow> 'w system" where
  "drain env n s = run env (replicate n (Resume 0)) s"

text \<open>
  The states such an invocation goes through when it is alone: waiting for the
  extraction of \<open>f\<close>, having shown its name and sent the request; and over, after the
  code that follows the loop.
\<close>

definition waiting :: "js_file list \<Rightarrow> js_file \<Rightarrow> js_file list \<Rightarrow> locals \<Rightarrow> dialog \<Rightarrow> nat list \<Rightarrow> 'w world \<Rightarrow> 'w system" where
  "waiting batch f rest v d ts wd =
     \<lparr>dialog = showStatus (''Processing: '' @ file_name f @ ''...'') Info d,
      tasks = [\<lparr>imageFiles = batch, current = f, awaits = Fetching, todo = rest, vars = v\<rparr>],
      timers = ts,
      world = wd\<lparr>calls := calls wd @ [FetchApi f]\<rparr>\<rparr>"

definition finished :: "locals \<Rightarrow> dialog \<Rightarrow> nat list \<Rightarrow> 'w world \<Rightarrow> 'w system" where
  "finished v d ts wd =
     \<lparr>dialog = fst (handleFileSelect_end v d), tasks = [],
      timers = ts @ snd (handleFileSelect_end v d), world = wd\<rparr>"

text \<open>Where the invocation stands once the iteration for \<open>f\<close> is through.\<close>

definition after_file ::
  "'w env \<Rightarrow> js_file list \<Rightarrow> js_file \<Rightarrow> js_file list \<Rightarrow> locals \<Rightarrow> dialog \<Rightarrow> nat list \<Rightarrow> 'w world
   \<Rightarrow> 'w system" where
  "after_file env batch f rest v d ts wd =
     (case loop_body env f (d, v, wd) of
        (d1, v1, wd1) \<Rightarrow>
          (case rest of
             [] \<Rightarrow> finished v1 d1 ts wd1
           | f' # rest' \<Rightarrow> waiting batch f' rest' v1 d1 ts wd1))"

text \<open>
  The spec's wording of the loader's choice, for comparison: "if \<open>workflowGraph\<close> is
  present, use it; else if \<open>apiPrompt\<close> is present, use it; else fail". A field is present
  when the extraction result carries it, that is, when it is not \<open>undefined\<close>.
\<close>

definition spec_payload :: "jsval \<Rightarrow> jsval \<Rightarrow> jsval option" where
  "spec_payload workflowGraph apiPrompt =
     (if workflowGraph \<noteq> JUndefined then Some workflowGraph
      else if apiPrompt \<noteq> JUndefined then Some apiPrompt
      else None)"

section \<open>Concrete collaborators\<close>

text \<open>
  A runtime to evaluate the importer on: the server answers each file as \<open>server\<close>
  says, the host loads as \<open>loader\<close> says, and the world counts the calls. \<open>demo_parse\<close>
  agrees with \<open>JSON.parse\<close> on the three texts it knows and rejects every other text.
\<close>

definition demo_parse :: "string \<Rightarrow> js_error + jsval" where
  "demo_parse s =
     (if s = ''null'' then Inr JNull
      else if s = ''{}'' then Inr (JObj [])
      else if s = ''[]'' then Inr (JArr [])
      else Inl (JsError ''Unexpected token''))"

definition demo_env :: "(js_file \<Rightarrow> js_error + response) \<Rightarrow> (jsval \<Rightarrow> js_error option) \<Rightarrow> nat env" where
  "demo_env server loader =
     \<lparr>fetchApi = (\<lambda>f w. (server f, Suc w)),
      loadGraphData = (\<lambda>g clean restore_view title w. (loader g, Suc w)),
      JSON_parse = demo_parse,
      nullPropertyError = (\<lambda>k. JsError (''Cannot read properties of null (reading '' @ k @ '')''))\<rparr>"

definition world0 :: "nat world" where
  "world0 = \<lparr>calls = [], host = 0\<rparr>"

definition png :: "string \<Rightarrow> js_file" where
  "png n = \<lparr>file_name = n, file_type = ''image/png''\<rparr>"

definition http :: "nat \<Rightarrow> jsval \<Rightarrow> js_error + response" where
  "http code body = Inr \<lparr>ok = (200 \<le> code \<and> code < 300), status = code, json = Inr body\<rparr>"

text \<open>A server that finds a workflow graph in every image, and a host that loads it.\<close>

definition graph :: jsval where
  "graph = JObj [(''nodes'', JArr []), (''links'', JArr [])]"

definition good_env :: "nat env" where
  "good_env =
     demo_env (\<lambda>f. http 200 (JObj [(''success'', JBool True), (''workflow'', graph)])) (\<lambda>g. None)"

text \<open>
  A server that finds a workflow in every image but the one named "b.png", whose
  metadata are only generation parameters; and a file that is no image.
\<close>

definition mixed_env :: "nat env" where
  "mixed_env =
     demo_env
       (\<lambda>f. if file_name f = ''b.png''
            then http 200 (JObj [(''success'', JBool False),
                                 (''error'', JStr ''only Automatic1111 parameters found'')])
            else http 200 (JObj [(''success'', JBool True), (''workflow'', graph)]))
       (\<lambda>g. None)"

definition notes_txt :: js_file where
  "notes_txt = \<lparr>file_name = ''notes.txt'', file_type = ''text/plain''\<rparr>"

section \<open>Properties of the tab title\<close>

lemma replace_ext_strips:
  assumes "ext \<noteq> []" "list_all ext_char ext"
  shows "replace_ext (stem @ CHR ''.'' # ext) = stem"
  using assms by (induction stem) (auto simp: ext_char_def list_all_iff)

lemma replace_ext_changes:
  "replace_ext s \<noteq> s \<Longrightarrow>
   \<exists>stem ext. s = stem @ CHR ''.'' # ext \<and> ext \<noteq> [] \<and> list_all ext_char ext"
proof (induction s)
  case Nil
  then show ?case by simp
next
  case (Cons c r)
  show ?case
  proof (cases "matches_ext (c # r)")
    case True
    then have "c # r = [] @ CHR ''.'' # r \<and> r \<noteq> [] \<and> list_all ext_char r" by simp
    then show ?thesis by blast
  next
    case False
    with Cons.prems have "replace_ext r \<noteq> r" by (auto split: if_splits)
    from Cons.IH[OF this] obtain stem ext
      where "r = stem @ CHR ''.'' # ext" "ext \<noteq> []" "list_all ext_char ext"
      by blast
    then have "c # r = (c # stem) @ CHR ''.'' # ext \<and> ext \<noteq> [] \<and> list_all ext_char ext"
      by simp
    then show ?thesis by blast
  qed
qed

lemma final_extension_split:
  assumes "ext \<noteq> []" "list_all ext_char ext"
  shows "final_extension (stem @ CHR ''.'' # ext) = Some ext"
proof -
  have a: "\<And>c. c \<in> set (rev ext) \<Longrightarrow> ext_char c"
    using assms by (simp add: list_all_iff)
  have b: "\<not> ext_char CHR ''.''" by (simp add: ext_char_def)
  have "takeWhile ext_char (rev ext @ CHR ''.'' # rev stem) = rev ext"
    using takeWhile_append2[of "rev ext" ext_char "CHR ''.'' # rev stem"] a b by simp
  moreover have "dropWhile ext_char (rev ext @ CHR ''.'' # rev stem) = CHR ''.'' # rev stem"
    using dropWhile_append2[of "rev ext" ext_char "CHR ''.'' # rev stem"] a b by simp
  ultimately show ?thesis using assms by (simp add: final_extension_def)
qed

lemma final_extension_None:
  assumes "final_extension s = None"
  shows "replace_ext s = s"
proof (rule ccontr)
  assume "replace_ext s \<noteq> s"
  from replace_ext_changes[OF this] obtain stem ext
    where "s = stem @ CHR ''.'' # ext" "ext \<noteq> []" "list_all ext_char ext" by blast
  then have "final_extension s = Some ext" using final_extension_split by simp
  with assms show False by simp
qed

lemma final_extension_Some:
  assumes "final_extension s = Some ext"
  shows "s = take (length s - Suc (length ext)) s @ CHR ''.'' # ext
         \<and> ext \<noteq> [] \<and> list_all ext_char ext"
proof -
  let ?t = "takeWhile ext_char (rev s)" and ?d = "dropWhile ext_char (rev s)"
  from assms have e: "ext = rev ?t" and ne: "ext \<noteq> []" and d: "?d \<noteq> []" "hd ?d = CHR ''.''"
    by (auto simp: final_extension_def Let_def split: if_splits)
  from d obtain r where r: "?d = CHR ''.'' # r" by (cases ?d) auto
  have "rev s = ?t @ ?d" by simp
  then have "s = rev ?d @ rev ?t" by (metis rev_append rev_rev_ident)
  then have s: "s = rev r @ CHR ''.'' # ext" using r e by simp
  have "list_all ext_char ext" unfolding e list_all_iff using set_takeWhileD by fastforce
  moreover have "take (length s - Suc (length ext)) s = rev r"
    by (subst (2) s, subst s) simp
  ultimately show ?thesis using s ne by simp
qed

lemma tabName_by_extension:
  "tabName filename =
     (case final_extension filename of
        None \<Rightarrow> or_default filename
      | Some ext \<Rightarrow> or_default (take (length filename - Suc (length ext)) filename))"
proof (cases "final_extension filename")
  case None
  then show ?thesis by (simp add: tabName_def or_default_def final_extension_None)
next
  case (Some ext)
  from final_extension_Some[OF this]
  have s: "filename = take (length filename - Suc (length ext)) filename @ CHR ''.'' # ext"
    and "ext \<noteq> []" "list_all ext_char ext" by blast+
  then have "replace_ext filename = take (length filename - Suc (length ext)) filename"
    using replace_ext_strips by metis
  then show ?thesis using Some by (simp add: tabName_def or_default_def)
qed

lemma strip_last_segment_split:
  "CHR ''.'' \<notin> set ext \<Longrightarrow> strip_last_segment (stem @ CHR ''.'' # ext) = stem"
  by (induction stem) auto

lemma spec_title_with_extension:
  assumes "final_extension filename = Some ext"
  shows "spec_title filename = tabName filename"
proof -
  from final_extension_Some[OF assms] obtain stem
    where s: "filename = stem @ CHR ''.'' # ext" and ne: "ext \<noteq> []" and all: "list_all ext_char ext"
    by blast
  from all have nodot: "CHR ''.'' \<notin> set ext" by (auto simp: list_all_iff ext_char_def)
  have "replace_ext filename = stem" using s ne all replace_ext_strips by simp
  moreover have "strip_last_segment filename = stem" using s nodot strip_last_segment_split by simp
  moreover have "CHR ''.'' \<in> set filename" using s by simp
  ultimately show ?thesis by (simp add: spec_title_def tabName_def)
qed

lemma spec_title_without_dot:
  assumes "CHR ''.'' \<notin> set filename"
  shows "spec_title filename = tabName filename"
proof -
  have "replace_ext filename = filename"
  proof (rule ccontr)
    assume "replace_ext filename \<noteq> filename"
    from replace_ext_changes[OF this] show False using assms by auto
  qed
  then show ?thesis using assms by (simp add: spec_title_def tabName_def)
qed

text \<open>
  C8 (as the code has it). The tab title is the file name without its final extension,
  the final extension being the last dot together with a non-empty run of characters
  after it that holds neither a dot nor a slash; a name with no such extension is kept
  whole; an empty result gives "Imported Workflow". Whenever the name has such an
  extension, or no dot at all, this is the name with its last dot segment removed.
  "render.final.png" gives "render.final" and ".png" gives the default title.
\<close>

theorem tabName_strips_final_extension:
  "tabName filename =
     (case final_extension filename of
        None \<Rightarrow> or_default filename
      | Some ext \<Rightarrow> or_default (take (length filename - Suc (length ext)) filename))
   \<and> (final_extension filename \<noteq> None \<or> CHR ''.'' \<notin> set filename
        \<longrightarrow> tabName filename = spec_title filename)
   \<and> tabName ''render.final.png'' = ''render.final''
   \<and> tabName ''.png'' = ''Imported Workflow''"
proof -
  have "tabName ''render.final.png'' = ''render.final''"
    by (simp add: tabName_def ext_char_def)
  moreover have "tabName ''.png'' = ''Imported Workflow''"
    by (simp add: tabName_def ext_char_def)
  moreover have "final_extension filename \<noteq> None \<or> CHR ''.'' \<notin> set filename
        \<longrightarrow> tabName filename = spec_title filename"
    using spec_title_with_extension spec_title_without_dot by fastforce
  ultimately show ?thesis using tabName_by_extension by blast
qed

theorem tabName_strips_final_extension_witness:
  "final_extension ''photo.v2.png'' = Some ''png''
   \<and> tabName ''photo.v2.png'' = ''photo.v2''
   \<and> spec_title ''photo.v2.png'' = ''photo.v2''"
  using tabName_strips_final_extension [of "''photo.v2.png''"]
  by (auto simp: final_extension_def ext_char_def or_default_def)

text \<open>
  C8 (as the spec words it) fails on a name that ends with a dot: the pattern asks for
  at least one character after the dot, so nothing is removed and the dot stays, where
  removing the last dot segment gives "archive".
\<close>

theorem tabName_trailing_dot_counterexample:
  "tabName ''archive.'' = ''archive.''
   \<and> spec_title ''archive.'' = ''archive''
   \<and> tabName ''archive.'' \<noteq> spec_title ''archive.''"
  by (simp add: tabName_def spec_title_def ext_char_def)

section \<open>Properties of the Extraction Client\<close>

lemma extract_http_error:
  assumes "fetchApi env f (host wd) = (Inr resp, h)" "\<not> ok resp"
  shows "fst (extractWorkflowFromData env f wd)
         = ExtractFailure
             (JStr (''Extraction failed: Extraction failed: '' @ string_of_nat (status resp)))"
  using assms by (simp add: extractWorkflowFromData_def call_fetchApi_def extract_settle_def extract_try_def)

lemma extract_transport_error:
  assumes "fetchApi env f (host wd) = (Inl err, h)"
  shows "fst (extractWorkflowFromData env f wd)
         = ExtractFailure (JStr (''Extraction failed: '' @ message err))"
  using assms by (simp add: extractWorkflowFromData_def call_fetchApi_def extract_settle_def extract_try_def)

text \<open>
  C5. A non-success HTTP status should give the reason "Extraction failed: <status>".
  The code throws an error with that very message inside its own \<open>try\<close>, and the
  \<open>catch\<close> puts the prefix in front once more: on status 500 the reason is
  "Extraction failed: Extraction failed: 500".
\<close>

theorem extract_http_500_double_prefix:
  "fst (extractWorkflowFromData (demo_env (\<lambda>f. http 500 JNull) (\<lambda>g. None)) (png ''a.png'') world0)
     = ExtractFailure (JStr ''Extraction failed: Extraction failed: 500'')
   \<and> ''Extraction failed: Extraction failed: 500'' \<noteq> ''Extraction failed: 500''"
  by (simp add: extractWorkflowFromData_def call_fetchApi_def extract_settle_def extract_try_def demo_env_def
      http_def world0_def digit_char_def string_of_nat.simps)

text \<open>
  C6 (as the code has it). On a success status whose JSON body has a falsy \<open>success\<close>,
  the failure's reason is the body's \<open>error\<close> when that is truthy, and "No workflow found
  in image" otherwise (\<open>error || fallback\<close>); exactly one request has been sent. This is
  \<open>error ?? fallback\<close> whenever \<open>error\<close> is truthy, absent or \<open>null\<close>.
\<close>

theorem extract_reported_failure:
  assumes "fetchApi env f (host wd) = (Inr resp, h)"
      and "ok resp"
      and "json resp = Inr body"
      and "body \<noteq> JNull" and "body \<noteq> JUndefined"
      and "\<not> truthy (field body ''success'')"
  shows "extractWorkflowFromData env f wd
         = (ExtractFailure (if truthy (field body ''error'') then field body ''error''
                            else JStr ''No workflow found in image''),
            \<lparr>calls = calls wd @ [FetchApi f], host = h\<rparr>)
         \<and> (truthy (field body ''error'') \<or> field body ''error'' = JUndefined
              \<or> field body ''error'' = JNull \<longrightarrow>
            fst (extractWorkflowFromData env f wd)
            = ExtractFailure (js_nullish (field body ''error'') (JStr ''No workflow found in image'')))"
  using assms
  by (auto simp: extractWorkflowFromData_def call_fetchApi_def extract_settle_def extract_try_def get_property_def
      js_or_def js_nullish_def)

theorem extract_reported_failure_witness:
  "extractWorkflowFromData
     (demo_env (\<lambda>f. http 200 (JObj [(''success'', JBool False),
                                       (''error'', JStr ''only Automatic1111 parameters found'')]))
               (\<lambda>g. None))
     (png ''a.png'') world0
   = (ExtractFailure (JStr ''only Automatic1111 parameters found''),
      \<lparr>calls = [FetchApi (png ''a.png'')], host = 1\<rparr>)"
  using extract_reported_failure
    [of "demo_env (\<lambda>f. http 200 (JObj [(''success'', JBool False),
                                       (''error'', JStr ''only Automatic1111 parameters found'')]))
               (\<lambda>g. None)"
        "png ''a.png''" world0
        "\<lparr>ok = True, status = 200, json = Inr (JObj [(''success'', JBool False),
                                       (''error'', JStr ''only Automatic1111 parameters found'')])\<rparr>"
        1
        "JObj [(''success'', JBool False), (''error'', JStr ''only Automatic1111 parameters found'')]"]
  by (simp add: demo_env_def http_def world0_def)

text \<open>
  C6 (as the spec words it) fails on a body whose \<open>error\<close> is present and empty:
  \<open>error ?? fallback\<close> is the empty string, and the code answers with the fallback.
\<close>

theorem extract_empty_error_counterexample:
  "fst (extractWorkflowFromData
     (demo_env (\<lambda>f. http 200 (JObj [(''success'', JBool False), (''error'', JStr [])])) (\<lambda>g. None))
     (png ''a.png'') world0)
   = ExtractFailure (JStr ''No workflow found in image'')
   \<and> js_nullish (field (JObj [(''success'', JBool False), (''error'', JStr [])]) ''error'')
        (JStr ''No workflow found in image'') = JStr []"
  by (simp add: extractWorkflowFromData_def call_fetchApi_def extract_settle_def extract_try_def demo_env_def http_def
      world0_def get_property_def js_or_def js_nullish_def)

section \<open>Properties of the Graph Loader Adapter\<close>

lemma loadWorkflow_graph:
  assumes "graphData_of env wj pj = Inr g" "truthy g"
  shows "calls (snd (loadWorkflow env wj pj fn wd)) = calls wd @ [LoadGraphData g True True (tabName fn)]"
  using assms
  by (simp add: loadWorkflow_def call_loadGraphData_def split: prod.splits option.splits)

lemma loadWorkflow_falsy_graph:
  assumes "graphData_of env wj pj = Inr g" "\<not> truthy g"
  shows "loadWorkflow env wj pj fn wd = (ResultFail (JStr ''No valid workflow data found''), wd)"
  using assms by (simp add: loadWorkflow_def)

lemma loadWorkflow_parse_error:
  assumes "graphData_of env wj pj = Inl err"
  shows "loadWorkflow env wj pj fn wd = (ResultFail (JStr (''Failed to load workflow: '' @ message err)), wd)"
  using assms by (simp add: loadWorkflow_def)

text \<open>
  C7 (as the code has it). A truthy \<open>workflowJson\<close> is the payload handed to the host,
  whatever \<open>promptJson\<close> is; when \<open>workflowJson\<close> is falsy, a truthy \<open>promptJson\<close> is; when
  neither is truthy the call fails with "No valid workflow data found" and the host is
  not called. A payload that is a string is parsed first, and an exception of the parser
  comes back as the failure "Failed to load workflow: <message>", the host not called.
\<close>

theorem loadWorkflow_prefers_truthy_workflow:
  "(truthy wj \<and> \<not> is_string wj \<longrightarrow>
      calls (snd (loadWorkflow env wj pj fn wd)) = calls wd @ [LoadGraphData wj True True (tabName fn)])
   \<and> (truthy (JStr s) \<and> JSON_parse env s = Inr g \<and> truthy g \<longrightarrow>
      calls (snd (loadWorkflow env (JStr s) pj fn wd)) = calls wd @ [LoadGraphData g True True (tabName fn)])
   \<and> (truthy (JStr s) \<and> JSON_parse env s = Inl err \<longrightarrow>
      loadWorkflow env (JStr s) pj fn wd
        = (ResultFail (JStr (''Failed to load workflow: '' @ message err)), wd))
   \<and> (\<not> truthy wj \<and> truthy pj \<and> \<not> is_string pj \<longrightarrow>
      calls (snd (loadWorkflow env wj pj fn wd)) = calls wd @ [LoadGraphData pj True True (tabName fn)])
   \<and> (\<not> truthy wj \<and> truthy (JStr s) \<and> JSON_parse env s = Inr g \<and> truthy g \<longrightarrow>
      calls (snd (loadWorkflow env wj (JStr s) fn wd)) = calls wd @ [LoadGraphData g True True (tabName fn)])
   \<and> (\<not> truthy wj \<and> truthy (JStr s) \<and> JSON_parse env s = Inl err \<longrightarrow>
      loadWorkflow env wj (JStr s) fn wd
        = (ResultFail (JStr (''Failed to load workflow: '' @ message err)), wd))
   \<and> (\<not> truthy wj \<and> \<not> truthy pj \<longrightarrow>
      loadWorkflow env wj pj fn wd = (ResultFail (JStr ''No valid workflow data found''), wd))"
proof -
  have a: "truthy wj \<and> \<not> is_string wj \<longrightarrow>
      calls (snd (loadWorkflow env wj pj fn wd)) = calls wd @ [LoadGraphData wj True True (tabName fn)]"
  proof (intro impI, elim conjE)
    assume t: "truthy wj" and n: "\<not> is_string wj"
    then have "graphData_of env wj pj = Inr wj"
      by (cases wj) (simp_all add: graphData_of_def parse_if_string_def)
    then show "calls (snd (loadWorkflow env wj pj fn wd)) = calls wd @ [LoadGraphData wj True True (tabName fn)]"
      using t by (rule loadWorkflow_graph)
  qed
  have b: "truthy (JStr s) \<and> JSON_parse env s = Inr g \<and> truthy g \<longrightarrow>
      calls (snd (loadWorkflow env (JStr s) pj fn wd)) = calls wd @ [LoadGraphData g True True (tabName fn)]"
    by (simp add: loadWorkflow_graph graphData_of_def parse_if_string_def)
  have c: "truthy (JStr s) \<and> JSON_parse env s = Inl err \<longrightarrow>
      loadWorkflow env (JStr s) pj fn wd
        = (ResultFail (JStr (''Failed to load workflow: '' @ message err)), wd)"
    by (simp add: loadWorkflow_def graphData_of_def parse_if_string_def)
  have d: "\<not> truthy wj \<and> truthy pj \<and> \<not> is_string pj \<longrightarrow>
      calls (snd (loadWorkflow env wj pj fn wd)) = calls wd @ [LoadGraphData pj True True (tabName fn)]"
  proof (intro impI, elim conjE)
    assume f: "\<not> truthy wj" and t: "truthy pj" and n: "\<not> is_string pj"
    then have "graphData_of env wj pj = Inr pj"
      by (cases pj) (simp_all add: graphData_of_def parse_if_string_def)
    then show "calls (snd (loadWorkflow env wj pj fn wd)) = calls wd @ [LoadGraphData pj True True (tabName fn)]"
      using t by (rule loadWorkflow_graph)
  qed
  have e: "\<not> truthy wj \<and> truthy (JStr s) \<and> JSON_parse env s = Inr g \<and> truthy g \<longrightarrow>
      calls (snd (loadWorkflow env wj (JStr s) fn wd)) = calls wd @ [LoadGraphData g True True (tabName fn)]"
    by (simp add: loadWorkflow_graph graphData_of_def parse_if_string_def)
  have f: "\<not> truthy wj \<and> truthy (JStr s) \<and> JSON_parse env s = Inl err \<longrightarrow>
      loadWorkflow env wj (JStr s) fn wd
        = (ResultFail (JStr (''Failed to load workflow: '' @ message err)), wd)"
    by (simp add: loadWorkflow_def graphData_of_def parse_if_string_def)
  have g: "\<not> truthy wj \<and> \<not> truthy pj \<longrightarrow>
      loadWorkflow env wj pj fn wd = (ResultFail (JStr ''No valid workflow data found''), wd)"
    by (simp add: loadWorkflow_def graphData_of_def)
  from a b c d e f g show ?thesis by blast
qed

theorem loadWorkflow_prefers_truthy_workflow_witness:
  "calls (snd (loadWorkflow good_env graph (JStr ''{}'') ''a.png'' world0))
     = [LoadGraphData graph True True ''a'']
   \<and> calls (snd (loadWorkflow good_env (JStr ''[]'') graph ''a.png'' world0))
     = [LoadGraphData (JArr []) True True ''a'']
   \<and> loadWorkflow good_env (JStr ''{nodes'') graph ''a.png'' world0
     = (ResultFail (JStr ''Failed to load workflow: Unexpected token''), world0)
   \<and> calls (snd (loadWorkflow good_env JUndefined graph ''a.png'' world0))
     = [LoadGraphData graph True True ''a'']
   \<and> calls (snd (loadWorkflow good_env JUndefined (JStr ''{}'') ''a.png'' world0))
     = [LoadGraphData (JObj []) True True ''a'']
   \<and> loadWorkflow good_env JNull (JStr ''{nodes'') ''a.png'' world0
     = (ResultFail (JStr ''Failed to load workflow: Unexpected token''), world0)
   \<and> loadWorkflow good_env JUndefined JUndefined ''a.png'' world0
     = (ResultFail (JStr ''No valid workflow data found''), world0)"
proof -
  note t = loadWorkflow_prefers_truthy_workflow
  have p: "JSON_parse good_env ''{}'' = Inr (JObj [])" "JSON_parse good_env ''[]'' = Inr (JArr [])"
    "JSON_parse good_env ''{nodes'' = Inl (JsError ''Unexpected token'')"
    by (simp_all add: good_env_def demo_env_def demo_parse_def)
  have tn: "tabName ''a.png'' = ''a''" by (simp add: tabName_def ext_char_def)
  have c0: "calls world0 = []" by (simp add: world0_def)
  have g: "truthy graph" "\<not> is_string graph" by (simp_all add: graph_def)
  have 1: "calls (snd (loadWorkflow good_env graph (JStr ''{}'') ''a.png'' world0))
     = [LoadGraphData graph True True ''a'']"
    using t[of graph good_env "JStr ''{}''" "''a.png''" world0] g tn c0 by simp
  have 2: "calls (snd (loadWorkflow good_env (JStr ''[]'') graph ''a.png'' world0))
     = [LoadGraphData (JArr []) True True ''a'']"
    using t[of _ good_env graph "''a.png''" world0 "''[]''" "JArr []"] p tn c0 by simp
  have 3: "loadWorkflow good_env (JStr ''{nodes'') graph ''a.png'' world0
     = (ResultFail (JStr ''Failed to load workflow: Unexpected token''), world0)"
    using t[of _ good_env graph "''a.png''" world0 "''{nodes''" _ "JsError ''Unexpected token''"] p by simp
  have 4: "calls (snd (loadWorkflow good_env JUndefined graph ''a.png'' world0))
     = [LoadGraphData graph True True ''a'']"
    using t[of JUndefined good_env graph "''a.png''" world0] g tn c0 by simp
  have 5: "calls (snd (loadWorkflow good_env JUndefined (JStr ''{}'') ''a.png'' world0))
     = [LoadGraphData (JObj []) True True ''a'']"
    using t[of JUndefined good_env _ "''a.png''" world0 "''{}''" "JObj []"] p tn c0 by simp
  have 6: "loadWorkflow good_env JNull (JStr ''{nodes'') ''a.png'' world0
     = (ResultFail (JStr ''Failed to load workflow: Unexpected token''), world0)"
    using t[of JNull good_env _ "''a.png''" world0 "''{nodes''" _ "JsError ''Unexpected token''"] p by simp
  have 7: "loadWorkflow good_env JUndefined JUndefined ''a.png'' world0
     = (ResultFail (JStr ''No valid workflow data found''), world0)"
    using t[of JUndefined good_env JUndefined "''a.png''" world0] by simp
  from 1 2 3 4 5 6 7 show ?thesis by blast
qed

text \<open>
  C7 (as the spec words it) fails when \<open>workflow\<close> is present and falsy: with the empty
  string for \<open>workflow\<close> and a graph for \<open>prompt\<close>, the payload by presence is the empty
  string, and the code hands the prompt to the host and succeeds.
\<close>

theorem loadWorkflow_present_falsy_counterexample:
  "spec_payload (JStr []) graph = Some (JStr [])
   \<and> loadWorkflow good_env (JStr []) graph ''a.png'' world0
     = (ResultOk, \<lparr>calls = [LoadGraphData graph True True ''a''], host = 1\<rparr>)"
  by (simp add: spec_payload_def loadWorkflow_def graphData_of_def parse_if_string_def graph_def
      call_loadGraphData_def good_env_def demo_env_def world0_def tabName_def ext_char_def)


text \<open>
  C10. The choice goes by truthiness: a falsy \<open>workflowJson\<close> (the empty string, \<open>null\<close>,
  \<open>false\<close>, \<open>0\<close>) is treated exactly as an absent one, and a truthy \<open>promptJson\<close> is then
  the payload; and when the chosen payload is a string that parses to \<open>null\<close>, the call
  fails with "No valid workflow data found" without calling the host.
\<close>

theorem loadWorkflow_selects_by_truthiness:
  "(\<not> truthy wj \<longrightarrow> loadWorkflow env wj pj fn wd = loadWorkflow env JUndefined pj fn wd)
   \<and> (\<not> truthy wj \<and> truthy pj \<and> \<not> is_string pj \<longrightarrow>
        calls (snd (loadWorkflow env wj pj fn wd))
          = calls wd @ [LoadGraphData pj True True (tabName fn)])
   \<and> (truthy (JStr s) \<and> JSON_parse env s = Inr JNull \<longrightarrow>
        loadWorkflow env (JStr s) pj fn wd
          = (ResultFail (JStr ''No valid workflow data found''), wd))
   \<and> (\<not> truthy wj \<and> truthy (JStr s) \<and> JSON_parse env s = Inr JNull \<longrightarrow>
        loadWorkflow env wj (JStr s) fn wd
          = (ResultFail (JStr ''No valid workflow data found''), wd))"
proof -
  have a: "\<not> truthy wj \<longrightarrow> loadWorkflow env wj pj fn wd = loadWorkflow env JUndefined pj fn wd"
    by (simp add: loadWorkflow_def graphData_of_def)
  have b: "\<not> truthy wj \<and> truthy pj \<and> \<not> is_string pj \<longrightarrow>
        calls (snd (loadWorkflow env wj pj fn wd))
          = calls wd @ [LoadGraphData pj True True (tabName fn)]"
  proof (intro impI, elim conjE)
    assume "\<not> truthy wj" and t: "truthy pj" and "\<not> is_string pj"
    then have "graphData_of env wj pj = Inr pj"
      by (cases pj) (simp_all add: graphData_of_def parse_if_string_def)
    then show "calls (snd (loadWorkflow env wj pj fn wd))
          = calls wd @ [LoadGraphData pj True True (tabName fn)]"
      using t by (rule loadWorkflow_graph)
  qed
  have c: "truthy (JStr s) \<and> JSON_parse env s = Inr JNull \<longrightarrow>
        loadWorkflow env (JStr s) pj fn wd
          = (ResultFail (JStr ''No valid workflow data found''), wd)"
    by (simp add: loadWorkflow_def graphData_of_def parse_if_string_def)
  have d: "\<not> truthy wj \<and> truthy (JStr s) \<and> JSON_parse env s = Inr JNull \<longrightarrow>
        loadWorkflow env wj (JStr s) fn wd
          = (ResultFail (JStr ''No valid workflow data found''), wd)"
    by (simp add: loadWorkflow_def graphData_of_def parse_if_string_def)
  from a b c d show ?thesis by blast
qed

theorem loadWorkflow_selects_by_truthiness_witness:
  "loadWorkflow good_env (JStr []) graph ''a.png'' world0
     = loadWorkflow good_env JUndefined graph ''a.png'' world0
   \<and> calls (snd (loadWorkflow good_env (JStr []) graph ''a.png'' world0))
     = [LoadGraphData graph True True ''a'']
   \<and> loadWorkflow good_env (JStr ''null'') graph ''a.png'' world0
     = (ResultFail (JStr ''No valid workflow data found''), world0)
   \<and> loadWorkflow good_env (JStr []) (JStr ''null'') ''a.png'' world0
     = (ResultFail (JStr ''No valid workflow data found''), world0)"
proof -
  note t = loadWorkflow_selects_by_truthiness
  have p: "JSON_parse good_env ''null'' = Inr JNull"
    by (simp add: good_env_def demo_env_def demo_parse_def)
  have tn: "tabName ''a.png'' = ''a''" by (simp add: tabName_def ext_char_def)
  have c0: "calls world0 = []" by (simp add: world0_def)
  have g: "truthy graph" "\<not> is_string graph" by (simp_all add: graph_def)
  have 1: "loadWorkflow good_env (JStr []) graph ''a.png'' world0
     = loadWorkflow good_env JUndefined graph ''a.png'' world0"
    using t[of "JStr []" good_env graph "''a.png''" world0] by simp
  have 2: "calls (snd (loadWorkflow good_env (JStr []) graph ''a.png'' world0))
     = [LoadGraphData graph True True ''a'']"
    using t[of "JStr []" good_env graph "''a.png''" world0, THEN conjunct2, THEN conjunct1]
      g tn c0 by simp
  have 3: "loadWorkflow good_env (JStr ''null'') graph ''a.png'' world0
     = (ResultFail (JStr ''No valid workflow data found''), world0)"
    using t[of _ good_env graph "''a.png''" world0 "''null''"] p by simp
  have 4: "loadWorkflow good_env (JStr []) (JStr ''null'') ''a.png'' world0
     = (ResultFail (JStr ''No valid workflow data found''), world0)"
    using t[of "JStr []" good_env graph "''a.png''" world0 "''null''",
        THEN conjunct2, THEN conjunct2, THEN conjunct2] p by simp
  from 1 2 3 4 show ?thesis by blast
qed

section \<open>Properties of the Batch Processor and of the dialog\<close>


lemma showStatus_flags [simp]:
  "isOpen (showStatus m ty d) = isOpen d"
  "isProcessing (showStatus m ty d) = isProcessing d"
  "overlay_display (showStatus m ty d) = overlay_display d"
  by (simp_all add: showStatus_def split: option.splits)

lemma showStatus_map:
  "showStatus m ty d =
     d\<lparr>statusEl := map_option (\<lambda>el. el\<lparr>display := ''block'', textContent := m,
                                         whiteSpace := ''pre-wrap'', color := colors ty\<rparr>)
                     (statusEl d)\<rparr>"
  by (cases "statusEl d") (simp_all add: showStatus_def)

lemma showStatus_None [simp]:
  "(statusEl (showStatus m ty d) = None) = (statusEl d = None)"
  by (simp add: showStatus_def split: option.splits)

lemma extract_calls:
  "calls (snd (extractWorkflowFromData env f wd)) = calls wd @ [FetchApi f]"
  by (simp add: extractWorkflowFromData_def call_fetchApi_def split: prod.splits)

lemma loadWorkflow_calls:
  "filter is_fetch (calls (snd (loadWorkflow env w p n wd))) = filter is_fetch (calls wd)"
  by (simp add: loadWorkflow_def call_loadGraphData_def split: prod.splits sum.splits option.splits)

lemma processImageFile_returns:
  "\<exists>res. fst (processImageFile env f wd) = Inr res"
  by (simp add: processImageFile_def split: prod.splits extract_result.splits)

lemma processImageFile_fetches:
  "filter is_fetch (calls (snd (processImageFile env f wd))) = filter is_fetch (calls wd) @ [FetchApi f]"
proof (cases "extractWorkflowFromData env f wd")
  case (Pair r wd1)
  then have c: "calls wd1 = calls wd @ [FetchApi f]" using extract_calls[of env f wd] by simp
  show ?thesis
  proof (cases r)
    case (ExtractFailure e)
    then show ?thesis using Pair c by (simp add: processImageFile_def)
  next
    case (ExtractSuccess w p i)
    then show ?thesis using Pair c loadWorkflow_calls[of env w p "file_name f" wd1]
      by (auto simp: processImageFile_def split: prod.splits)
  qed
qed

lemma count_outcome_counts:
  "successCount (count_outcome f outcome v) + failCount (count_outcome f outcome v)
     = successCount v + failCount v + 1"
  "length (errors v) = failCount v \<Longrightarrow>
     length (errors (count_outcome f outcome v)) = failCount (count_outcome f outcome v)"
  by (auto simp: count_outcome_def split: sum.splits result.splits)

lemma loop_body_eq:
  "loop_body env f (d, v, wd) =
     (showStatus (''Processing: '' @ file_name f @ ''...'') Info d,
      count_outcome f (fst (processImageFile env f wd)) v,
      snd (processImageFile env f wd))"
  by (simp add: loop_body_def split: prod.splits)

lemma for_loop_invariant:
  assumes "for_loop env fs (d, v, wd) = (d', v', wd')"
  shows "successCount v' + failCount v' = successCount v + failCount v + length fs
       \<and> (length (errors v) = failCount v \<longrightarrow> length (errors v') = failCount v')
       \<and> filter is_fetch (calls wd') = filter is_fetch (calls wd) @ map FetchApi fs"
  using assms
proof (induction fs arbitrary: d v wd)
  case Nil
  then show ?case by simp
next
  case (Cons f fs)
  from Cons.prems have "for_loop env fs
      (showStatus (''Processing: '' @ file_name f @ ''...'') Info d,
       count_outcome f (fst (processImageFile env f wd)) v,
       snd (processImageFile env f wd)) = (d', v', wd')"
    by (simp add: loop_body_eq)
  from Cons.IH[OF this] count_outcome_counts[where f = f and outcome = "fst (processImageFile env f wd)" and v = v]
    processImageFile_fetches[of env f wd]
  show ?case by simp
qed

lemma run_Nil [simp]: "run env [] s = s"
  by (simp add: run_def)

lemma run_Cons [simp]: "run env (ev # evs) s = run env evs (step env ev s)"
  by (simp add: run_def)

lemma begin_Some:
  assumes "handleFileSelect_begin files d = (d1, Some fs)"
  shows "\<exists>fs0. files = Some fs0 \<and> fs = filter is_image fs0 \<and> fs \<noteq> [] \<and> \<not> isProcessing d
       \<and> d1 = showStatus (''Processing '' @ string_of_nat (length fs) @ '' image(s)...'') Info (d\<lparr>isProcessing := True\<rparr>)"
  using assms
  by (auto simp: handleFileSelect_begin_def Let_def split: option.splits if_splits)

lemma begin_flags:
  assumes "handleFileSelect_begin files d = (d1, r)"
  shows "isOpen d1 = isOpen d" "overlay_display d1 = overlay_display d"
    "isProcessing d1 = (isProcessing d \<or> r \<noteq> None)"
    "(statusEl d1 = None) = (statusEl d = None)"
  using assms
  by (auto simp: handleFileSelect_begin_def Let_def split: option.splits if_splits)

lemma end_flags:
  "isOpen (fst (handleFileSelect_end v d)) = isOpen d"
  "overlay_display (fst (handleFileSelect_end v d)) = overlay_display d"
  "\<not> isProcessing (fst (handleFileSelect_end v d))"
  "(statusEl (fst (handleFileSelect_end v d)) = None) = (statusEl d = None)"
  by (simp_all add: handleFileSelect_end_def Let_def)

lemma next_iteration_Nil:
  "next_iteration batch [] v s =
     (s\<lparr>dialog := fst (handleFileSelect_end v (dialog s)),
        timers := timers s @ snd (handleFileSelect_end v (dialog s))\<rparr>, None)"
  by (simp add: next_iteration_def split: prod.splits)

lemma next_iteration_Cons:
  "next_iteration batch (f # rest) v s =
     (s\<lparr>dialog := showStatus (''Processing: '' @ file_name f @ ''...'') Info (dialog s),
        world := (world s)\<lparr>calls := calls (world s) @ [FetchApi f]\<rparr>\<rparr>,
      Some \<lparr>imageFiles = batch, current = f, awaits = Fetching, todo = rest, vars = v\<rparr>)"
  by (simp add: next_iteration_def)

lemma next_iteration_props:
  "tasks (fst (next_iteration batch fs v s)) = tasks s"
  "isOpen (dialog (fst (next_iteration batch fs v s))) = isOpen (dialog s)"
  "overlay_display (dialog (fst (next_iteration batch fs v s))) = overlay_display (dialog s)"
  "isProcessing (dialog (fst (next_iteration batch fs v s))) = (fs \<noteq> [] \<and> isProcessing (dialog s))"
  "(statusEl (dialog (fst (next_iteration batch fs v s))) = None) = (statusEl (dialog s) = None)"
  by (cases fs; simp add: next_iteration_Nil next_iteration_Cons end_flags)+

lemma next_iteration_task:
  assumes "snd (next_iteration batch fs v s) = Some t"
  shows "\<exists>f rest. fs = f # rest
      \<and> t = \<lparr>imageFiles = batch, current = f, awaits = Fetching, todo = rest, vars = v\<rparr>"
  using assms by (cases fs) (simp_all add: next_iteration_Nil next_iteration_Cons)

lemma file_done_eq:
  "file_done i outcome s =
     (let t = tasks s ! i;
          r = next_iteration (imageFiles t) (todo t) (count_outcome (current t) outcome (vars t)) s
      in (fst r)\<lparr>tasks := (case snd r of None \<Rightarrow> remove_nth i (tasks s)
                            | Some t1 \<Rightarrow> (tasks s)[i := t1])\<rparr>)"
  by (simp add: file_done_def Let_def next_iteration_props(1)[symmetric] split: prod.splits option.splits)
    (metis fst_conv next_iteration_props(1))


lemma set_remove_nth: "set (remove_nth i xs) \<subseteq> set xs"
  unfolding remove_nth_def using set_take_subset set_drop_subset by fastforce

lemma file_done_tasks_ok:
  assumes "i < length (tasks s)" "list_all task_ok (tasks s)"
  shows "list_all task_ok (tasks (file_done i outcome s))"
proof -
  let ?t = "tasks s ! i"
  let ?v = "count_outcome (current ?t) outcome (vars ?t)"
  let ?r = "next_iteration (imageFiles ?t) (todo ?t) ?v s"
  from assms have ok: "task_ok ?t" by (simp add: list_all_length)
  show ?thesis
  proof (cases "snd ?r")
    case None
    then show ?thesis using assms(2) set_remove_nth[of i "tasks s"]
      by (auto simp: file_done_eq Let_def list_all_iff)
  next
    case (Some t1)
    from next_iteration_task[OF this] obtain f rest where
      fs: "todo ?t = f # rest" and
      t1: "t1 = \<lparr>imageFiles = imageFiles ?t, current = f, awaits = Fetching, todo = rest, vars = ?v\<rparr>"
      by blast
    from ok fs count_outcome_counts[where f = "current ?t" and outcome = outcome and v = "vars ?t"]
    have "task_ok t1" by (simp add: task_ok_def t1)
    then show ?thesis using Some assms(2) set_update_subset_insert[of "tasks s" i t1]
      by (auto simp: file_done_eq Let_def list_all_iff)
  qed
qed

lemma host_update_tasks [simp]:
  "tasks (s\<lparr>world := w\<rparr>) = tasks s" "dialog (s\<lparr>world := w\<rparr>) = dialog s"
  "timers (s\<lparr>world := w\<rparr>) = timers s"
  by simp_all

lemma resume_cases:
  obtains (finished) outcome h where
      "resume env i s = file_done i outcome (s\<lparr>world := (world s)\<lparr>host := h\<rparr>\<rparr>)"
    | (calling) g title h where
      "resume env i s =
         s\<lparr>world := (world s)\<lparr>host := h, calls := calls (world s) @ [LoadGraphData g True True title]\<rparr>,
           tasks := (tasks s)[i := (tasks s ! i)\<lparr>awaits := Loading g title\<rparr>]\<rparr>"
proof (cases "awaits (tasks s ! i)")
  case Fetching
  obtain fetched h where f: "fetchApi env (current (tasks s ! i)) (host (world s)) = (fetched, h)"
    by (cases "fetchApi env (current (tasks s ! i)) (host (world s))") auto
  show ?thesis
  proof (cases "extract_settle env fetched")
    case (ExtractFailure e)
    then have "resume env i s = file_done i (Inr (ResultFail e)) (s\<lparr>world := (world s)\<lparr>host := h\<rparr>\<rparr>)"
      using Fetching f by (simp add: resume_def)
    then show ?thesis by (rule finished)
  next
    case (ExtractSuccess w p i0)
    show ?thesis
    proof (cases "load_begin env w p (file_name (current (tasks s ! i)))")
      case (LoadDone res)
      then have "resume env i s = file_done i (Inr res) (s\<lparr>world := (world s)\<lparr>host := h\<rparr>\<rparr>)"
        using Fetching f ExtractSuccess by (simp add: resume_def)
      then show ?thesis by (rule finished)
    next
      case (LoadCall g title)
      then have "resume env i s =
         s\<lparr>world := (world s)\<lparr>host := h, calls := calls (world s) @ [LoadGraphData g True True title]\<rparr>,
           tasks := (tasks s)[i := (tasks s ! i)\<lparr>awaits := Loading g title\<rparr>]\<rparr>"
        using Fetching f ExtractSuccess by (simp add: resume_def)
      then show ?thesis by (rule calling)
    qed
  qed
next
  case (Loading g title)
  obtain thrown h where f: "loadGraphData env g True True title (host (world s)) = (thrown, h)"
    by (cases "loadGraphData env g True True title (host (world s))") auto
  then have "resume env i s = file_done i (Inr (load_settle thrown)) (s\<lparr>world := (world s)\<lparr>host := h\<rparr>\<rparr>)"
    using Loading by (simp add: resume_def)
  then show ?thesis by (rule finished)
qed

lemma resume_tasks_ok:
  assumes "i < length (tasks s)" "list_all task_ok (tasks s)"
  shows "list_all task_ok (tasks (resume env i s))"
proof -
  have fd: "\<And>outcome w. list_all task_ok (tasks (file_done i outcome (s\<lparr>world := w\<rparr>)))"
    using assms by (intro file_done_tasks_ok) simp_all
  have up: "\<And>a. list_all task_ok ((tasks s)[i := (tasks s ! i)\<lparr>awaits := a\<rparr>])"
  proof -
    fix a
    from assms have "task_ok (tasks s ! i)" by (simp add: list_all_length)
    then have "task_ok ((tasks s ! i)\<lparr>awaits := a\<rparr>)" by (simp add: task_ok_def)
    then show "list_all task_ok ((tasks s)[i := (tasks s ! i)\<lparr>awaits := a\<rparr>])"
      using assms(2) set_update_subset_insert[of "tasks s" i] by (auto simp: list_all_iff)
  qed
  show ?thesis
  proof (cases rule: resume_cases[of env i s])
    case (finished outcome h)
    then show ?thesis using fd by simp
  next
    case (calling g title h)
    then show ?thesis using up by simp
  qed
qed

lemma step_tasks_ok:
  assumes "list_all task_ok (tasks s)"
  shows "list_all task_ok (tasks (step env ev s))"
proof (cases ev)
  case (Select files)
  obtain d1 r where b: "handleFileSelect_begin files (dialog s) = (d1, r)"
    by (cases "handleFileSelect_begin files (dialog s)") auto
  show ?thesis
  proof (cases r)
    case None
    then show ?thesis using assms Select b by (simp add: step_def)
  next
    case (Some fs)
    with b begin_Some obtain fs0 where fs: "fs = filter is_image fs0" "fs \<noteq> []" by blast
    obtain f rest where c: "fs = f # rest" using fs(2) by (cases fs) auto
    have "list_all is_image fs" using fs by (simp add: list_all_iff)
    then have "task_ok \<lparr>imageFiles = fs, current = f, awaits = Fetching, todo = rest, vars = locals0\<rparr>"
      using c by (simp add: task_ok_def locals0_def)
    then show ?thesis using assms Select b Some c
      by (simp add: step_def next_iteration_Cons)
  qed
next
  case (Resume i)
  then show ?thesis using assms resume_tasks_ok[of i s env] by (simp add: step_def)
qed (use assms in \<open>simp_all add: step_def\<close>)

lemma run_tasks_ok:
  "list_all task_ok (tasks s) \<Longrightarrow> list_all task_ok (tasks (run env evs s))"
  by (induction evs arbitrary: s) (simp_all add: step_tasks_ok)

text \<open>
  C1. The loop of \<open>handleFileSelect\<close> over the files that pass the \<open>image/\<close> filter
  ends with \<open>successCount + failCount\<close> equal to the number of those files, with one
  message per failure, and having sent exactly one extraction request per filtered file,
  in order, whatever each file's outcome was. The same bookkeeping holds for every
  invocation in flight in every state the event loop can reach: the files counted, the
  file at hand and the files still to do make up the filtered files.
\<close>

theorem batch_counts_every_image_file:
  "(case for_loop env (filter is_image fs) (d, locals0, wd) of
      (d', v, wd') \<Rightarrow>
        successCount v + failCount v = length (filter is_image fs)
        \<and> length (errors v) = failCount v
        \<and> filter is_fetch (calls wd') = filter is_fetch (calls wd) @ map FetchApi (filter is_image fs))
   \<and> list_all task_ok (tasks (run env evs (init wd)))"
proof -
  obtain d' v wd' where r: "for_loop env (filter is_image fs) (d, locals0, wd) = (d', v, wd')"
    by (cases "for_loop env (filter is_image fs) (d, locals0, wd)") auto
  from for_loop_invariant[OF r] have
    "successCount v + failCount v = length (filter is_image fs)
        \<and> length (errors v) = failCount v
        \<and> filter is_fetch (calls wd') = filter is_fetch (calls wd) @ map FetchApi (filter is_image fs)"
    by (simp add: locals0_def)
  moreover have "list_all task_ok (tasks (run env evs (init wd)))"
    by (rule run_tasks_ok) (simp add: init_def)
  ultimately show ?thesis using r by simp
qed

lemma file_done_flags:
  "isOpen (dialog (file_done i outcome s)) = isOpen (dialog s)"
  "overlay_display (dialog (file_done i outcome s)) = overlay_display (dialog s)"
  "isProcessing (dialog (file_done i outcome s)) \<Longrightarrow> isProcessing (dialog s)"
  "(statusEl (dialog (file_done i outcome s)) = None) = (statusEl (dialog s) = None)"
  by (simp_all add: file_done_eq Let_def next_iteration_props)

lemma resume_flags:
  "isOpen (dialog (resume env i s)) = isOpen (dialog s)"
  "overlay_display (dialog (resume env i s)) = overlay_display (dialog s)"
  "isProcessing (dialog (resume env i s)) \<Longrightarrow> isProcessing (dialog s)"
  "(statusEl (dialog (resume env i s)) = None) = (statusEl (dialog s) = None)"
  by (cases rule: resume_cases[of env i s]; simp add: file_done_flags; drule file_done_flags(3); simp)+

lemma step_inv:
  assumes "open_while_processing s" and "case ev of Select files \<Rightarrow> isOpen (dialog s) | _ \<Rightarrow> True"
  shows "open_while_processing (step env ev s)"
proof (cases ev)
  case Toggle
  then show ?thesis
    by (simp add: step_def open_while_processing_def toggle_def close_def show_dialog_def)
next
  case Show
  then show ?thesis by (simp add: step_def open_while_processing_def show_dialog_def)
next
  case Close
  then show ?thesis by (simp add: step_def open_while_processing_def close_def)
next
  case (Select files)
  obtain d1 r where b: "handleFileSelect_begin files (dialog s) = (d1, r)"
    by (cases "handleFileSelect_begin files (dialog s)") auto
  from assms(2) Select have "isOpen (dialog s)" by simp
  with begin_flags(1)[OF b] have o: "isOpen d1" by simp
  show ?thesis
  proof (cases r)
    case None
    then show ?thesis using Select b o by (simp add: step_def open_while_processing_def)
  next
    case (Some fs)
    have "isOpen (dialog (fst (next_iteration fs fs locals0 (s\<lparr>dialog := d1\<rparr>))))"
      using o by (simp add: next_iteration_props)
    then show ?thesis using Select b Some
      by (auto simp: step_def open_while_processing_def split: prod.splits option.splits)
  qed
next
  case (Resume i)
  then show ?thesis using assms(1) resume_flags(1,3)[of env i s]
    by (auto simp: step_def open_while_processing_def)
next
  case (Timeout i)
  then show ?thesis using assms(1) by (simp add: step_def open_while_processing_def close_def)
qed

lemma run_inv:
  "open_while_processing s \<Longrightarrow> selects_while_open env evs s \<Longrightarrow>
   open_while_processing (run env evs s)"
  by (induction evs arbitrary: s) (simp_all add: step_inv)

text \<open>
  C9 (as the code has it). In every state reached by toggling, showing, closing, timers
  firing, batches going on and completing, and by file selections handled while the
  dialog is open, \<open>isProcessing\<close> implies \<open>isOpen\<close>. \<open>close()\<close> sets both flags to false
  whatever the state, also in the middle of a batch, and leaves the batch in flight.
\<close>

theorem processing_implies_open:
  assumes "selects_while_open env evs (init wd)"
  shows "(isProcessing (dialog (run env evs (init wd))) \<longrightarrow> isOpen (dialog (run env evs (init wd))))
       \<and> \<not> isOpen (close d) \<and> \<not> isProcessing (close d)
       \<and> dialog (step env Close s) = close (dialog s)
       \<and> tasks (step env Close s) = tasks s"
proof -
  have "open_while_processing (init wd)"
    by (simp add: open_while_processing_def init_def new_dialog_def)
  from run_inv[OF this assms] show ?thesis
    by (simp add: open_while_processing_def close_def step_def)
qed


lemma end_all_success:
  assumes "0 < successCount v" "failCount v = 0"
  shows "handleFileSelect_end v d =
           (showStatus (check_mark @ '' Successfully imported '' @ string_of_nat (successCount v)
                          @ '' workflow(s)!'') Success (d\<lparr>isProcessing := False\<rparr>), [1500])"
  using assms by (simp add: handleFileSelect_end_def)

lemma end_partial:
  assumes "0 < successCount v" "0 < failCount v"
  shows "handleFileSelect_end v d =
           (showStatus (''Imported '' @ string_of_nat (successCount v) @ '' workflow(s), ''
                          @ string_of_nat (failCount v) @ '' failed:'' @ newline
                          @ join newline (errors v)) Warning (d\<lparr>isProcessing := False\<rparr>), [])"
  using assms by (simp add: handleFileSelect_end_def)

lemma end_all_failed:
  assumes "successCount v = 0"
  shows "handleFileSelect_end v d =
           (showStatus (''Failed to import workflows:'' @ newline @ join newline (errors v))
              Error (d\<lparr>isProcessing := False\<rparr>), [])"
  using assms by (simp add: handleFileSelect_end_def)

lemma showStatus_statusEl:
  "statusEl (showStatus m ty d) =
     map_option (\<lambda>el. el\<lparr>display := ''block'', textContent := m,
                          whiteSpace := ''pre-wrap'', color := colors ty\<rparr>) (statusEl d)"
  by (cases "statusEl d") (simp_all add: showStatus_def)

text \<open>
  C2. When an invocation leaves its loop, \<open>isProcessing\<close> is false afterwards and
  \<open>isOpen\<close> is as before. With successes and no failure the status area shows the
  success message and one timer of 1500 ms is set, whose firing closes the dialog
  (\<open>isProcessing\<close> being false already); with successes and failures it shows the warning
  with both counts and every failure message, and no timer is set; with no success it
  shows the error message listing every failure, and no timer is set.
\<close>

theorem completed_batch_classification:
  assumes "s' = fst (next_iteration batch [] v s)"
  shows "\<not> isProcessing (dialog s') \<and> isOpen (dialog s') = isOpen (dialog s)
       \<and> (0 < successCount v \<and> failCount v = 0 \<longrightarrow>
            statusEl (dialog s') =
              map_option (\<lambda>el. el\<lparr>display := ''block'',
                        textContent := check_mark @ '' Successfully imported ''
                          @ string_of_nat (successCount v) @ '' workflow(s)!'',
                        whiteSpace := ''pre-wrap'', color := colors Success\<rparr>) (statusEl (dialog s))
            \<and> timers s' = timers s @ [1500]
            \<and> \<not> isOpen (dialog (step env (Timeout (length (timers s))) s'))
            \<and> \<not> isProcessing (dialog (step env (Timeout (length (timers s))) s')))
       \<and> (0 < successCount v \<and> 0 < failCount v \<longrightarrow>
            statusEl (dialog s') =
              map_option (\<lambda>el. el\<lparr>display := ''block'',
                        textContent := ''Imported '' @ string_of_nat (successCount v)
                          @ '' workflow(s), '' @ string_of_nat (failCount v) @ '' failed:''
                          @ newline @ join newline (errors v),
                        whiteSpace := ''pre-wrap'', color := colors Warning\<rparr>) (statusEl (dialog s))
            \<and> timers s' = timers s)
       \<and> (successCount v = 0 \<longrightarrow>
            statusEl (dialog s') =
              map_option (\<lambda>el. el\<lparr>display := ''block'',
                        textContent := ''Failed to import workflows:'' @ newline
                          @ join newline (errors v),
                        whiteSpace := ''pre-wrap'', color := colors Error\<rparr>) (statusEl (dialog s))
            \<and> timers s' = timers s)"
proof -
  let ?e = "handleFileSelect_end v (dialog s)"
  have s': "s' = s\<lparr>dialog := fst ?e, timers := timers s @ snd ?e\<rparr>"
    using assms by (simp add: next_iteration_Nil)
  have flags: "\<not> isProcessing (dialog s')" "isOpen (dialog s') = isOpen (dialog s)"
    using s' end_flags[of v "dialog s"] by simp_all
  have a: "0 < successCount v \<and> failCount v = 0 \<longrightarrow>
            statusEl (dialog s') =
              map_option (\<lambda>el. el\<lparr>display := ''block'',
                        textContent := check_mark @ '' Successfully imported ''
                          @ string_of_nat (successCount v) @ '' workflow(s)!'',
                        whiteSpace := ''pre-wrap'', color := colors Success\<rparr>) (statusEl (dialog s))
            \<and> timers s' = timers s @ [1500]
            \<and> \<not> isOpen (dialog (step env (Timeout (length (timers s))) s'))
            \<and> \<not> isProcessing (dialog (step env (Timeout (length (timers s))) s'))"
    using s' end_all_success[of v "dialog s"]
    by (simp add: showStatus_statusEl step_def close_def)
  have b: "0 < successCount v \<and> 0 < failCount v \<longrightarrow>
            statusEl (dialog s') =
              map_option (\<lambda>el. el\<lparr>display := ''block'',
                        textContent := ''Imported '' @ string_of_nat (successCount v)
                          @ '' workflow(s), '' @ string_of_nat (failCount v) @ '' failed:''
                          @ newline @ join newline (errors v),
                        whiteSpace := ''pre-wrap'', color := colors Warning\<rparr>) (statusEl (dialog s))
            \<and> timers s' = timers s"
    using s' end_partial[of v "dialog s"] by (simp add: showStatus_statusEl)
  have c: "successCount v = 0 \<longrightarrow>
            statusEl (dialog s') =
              map_option (\<lambda>el. el\<lparr>display := ''block'',
                        textContent := ''Failed to import workflows:'' @ newline
                          @ join newline (errors v),
                        whiteSpace := ''pre-wrap'', color := colors Error\<rparr>) (statusEl (dialog s))
            \<and> timers s' = timers s"
    using s' end_all_failed[of v "dialog s"] by (simp add: showStatus_statusEl)
  from flags a b c show ?thesis by blast
qed

lemma begin_empty:
  "files = None \<or> files = Some [] \<Longrightarrow> handleFileSelect_begin files d = (d, None)"
  by (auto simp: handleFileSelect_begin_def)

lemma begin_busy:
  "fs \<noteq> [] \<Longrightarrow> isProcessing d \<Longrightarrow>
   handleFileSelect_begin (Some fs) d
     = (showStatus ''Please wait for current import to complete...'' Warning d, None)"
  by (simp add: handleFileSelect_begin_def)

lemma begin_no_images:
  "fs \<noteq> [] \<Longrightarrow> \<not> isProcessing d \<Longrightarrow> filter is_image fs = [] \<Longrightarrow>
   handleFileSelect_begin (Some fs) d = (showStatus ''No valid image files selected.'' Error d, None)"
  by (simp add: handleFileSelect_begin_def)

text \<open>
  C3 (as the code has it). An absent or empty selection returns at once: nothing is
  shown, nothing changes, no call is made. A non-empty selection without any image
  file, submitted while no batch is running, shows "No valid image files selected." as
  an error and changes nothing else: no call is made, no timer is set, no batch starts,
  the flags stay as they are.
\<close>

theorem no_image_files_no_batch:
  "(files = None \<or> files = Some [] \<longrightarrow>
      handleFileSelect env files d wd = (d, [], wd)
      \<and> step env (Select files) s = s)
   \<and> (fs \<noteq> [] \<and> filter is_image fs = [] \<and> \<not> isProcessing d \<longrightarrow>
      handleFileSelect env (Some fs) d wd =
        (d\<lparr>statusEl := map_option (\<lambda>el. el\<lparr>display := ''block'',
                                  textContent := ''No valid image files selected.'',
                                  whiteSpace := ''pre-wrap'', color := colors Error\<rparr>) (statusEl d)\<rparr>,
         [], wd))
   \<and> (fs \<noteq> [] \<and> filter is_image fs = [] \<and> \<not> isProcessing (dialog s) \<longrightarrow>
      step env (Select (Some fs)) s
        = s\<lparr>dialog := (dialog s)\<lparr>statusEl := map_option (\<lambda>el. el\<lparr>display := ''block'',
                                  textContent := ''No valid image files selected.'',
                                  whiteSpace := ''pre-wrap'', color := colors Error\<rparr>)
                                (statusEl (dialog s))\<rparr>\<rparr>)"
proof -
  have a: "files = None \<or> files = Some [] \<longrightarrow>
      handleFileSelect env files d wd = (d, [], wd) \<and> step env (Select files) s = s"
    using begin_empty by (auto simp: handleFileSelect_def step_def)
  have b: "fs \<noteq> [] \<and> filter is_image fs = [] \<and> \<not> isProcessing d \<longrightarrow>
      handleFileSelect env (Some fs) d wd =
        (d\<lparr>statusEl := map_option (\<lambda>el. el\<lparr>display := ''block'',
                                  textContent := ''No valid image files selected.'',
                                  whiteSpace := ''pre-wrap'', color := colors Error\<rparr>) (statusEl d)\<rparr>,
         [], wd)"
    using begin_no_images[of fs d] showStatus_map[of "''No valid image files selected.''" Error d]
    by (auto simp: handleFileSelect_def)
  have c: "fs \<noteq> [] \<and> filter is_image fs = [] \<and> \<not> isProcessing (dialog s) \<longrightarrow>
      step env (Select (Some fs)) s
        = s\<lparr>dialog := (dialog s)\<lparr>statusEl := map_option (\<lambda>el. el\<lparr>display := ''block'',
                                  textContent := ''No valid image files selected.'',
                                  whiteSpace := ''pre-wrap'', color := colors Error\<rparr>)
                                (statusEl (dialog s))\<rparr>\<rparr>"
    using begin_no_images[of fs "dialog s"]
      showStatus_map[of "''No valid image files selected.''" Error "dialog s"]
    by (auto simp: step_def)
  from a b c show ?thesis by blast
qed


lemma end_snd: "snd (handleFileSelect_end v d) = snd (handleFileSelect_end v d')"
  by (simp add: handleFileSelect_end_def Let_def)

lemma next_iteration_same:
  assumes "same_but_status s s'"
  shows "snd (next_iteration batch fs v s') = snd (next_iteration batch fs v s)"
    and "same_but_status (fst (next_iteration batch fs v s)) (fst (next_iteration batch fs v s'))"
proof -
  show "snd (next_iteration batch fs v s') = snd (next_iteration batch fs v s)"
    by (cases fs) (simp_all add: next_iteration_Nil next_iteration_Cons)
  show "same_but_status (fst (next_iteration batch fs v s)) (fst (next_iteration batch fs v s'))"
  proof (cases fs)
    case Nil
    then show ?thesis using assms end_snd[of v "dialog s'" "dialog s"]
      by (simp add: next_iteration_Nil same_but_status_def end_flags)
  next
    case (Cons f rest)
    then show ?thesis using assms
      by (simp add: next_iteration_Cons same_but_status_def)
  qed
qed

lemma same_tasks_update:
  assumes "same_but_status s s'"
  shows "same_but_status (s\<lparr>tasks := ts\<rparr>) (s'\<lparr>tasks := ts\<rparr>)"
  using assms by (simp add: same_but_status_def)

lemma file_done_same:
  assumes "same_but_status s s'"
  shows "same_but_status (file_done i outcome s) (file_done i outcome s')"
proof -
  from assms have t: "tasks s' = tasks s" by (simp add: same_but_status_def)
  let ?t = "tasks s ! i"
  let ?v = "count_outcome (current ?t) outcome (vars ?t)"
  let ?n = "next_iteration (imageFiles ?t) (todo ?t) ?v s"
  let ?n' = "next_iteration (imageFiles ?t) (todo ?t) ?v s'"
  from next_iteration_same[OF assms, of "imageFiles ?t" "todo ?t" ?v]
  have e: "snd ?n' = snd ?n" and sm: "same_but_status (fst ?n) (fst ?n')" by simp_all
  show ?thesis
  proof (cases "snd ?n")
    case None
    then show ?thesis using e sm same_tasks_update[OF sm, of "remove_nth i (tasks s)"]
      by (simp add: file_done_eq Let_def t)
  next
    case (Some t1)
    then show ?thesis using e sm same_tasks_update[OF sm, of "(tasks s)[i := t1]"]
      by (simp add: file_done_eq Let_def t)
  qed
qed

lemma same_host:
  assumes "same_but_status s s'"
  shows "same_but_status (s\<lparr>world := (world s)\<lparr>host := h\<rparr>\<rparr>) (s'\<lparr>world := (world s')\<lparr>host := h\<rparr>\<rparr>)"
  using assms by (simp add: same_but_status_def)

lemma resume_same:
  assumes "same_but_status s s'"
  shows "same_but_status (resume env i s) (resume env i s')"
proof -
  from assms have t: "tasks s' = tasks s" and w: "world s' = world s"
    by (simp_all add: same_but_status_def)
  show ?thesis
  proof (cases "awaits (tasks s ! i)")
    case Fetching
    obtain fetched h where f: "fetchApi env (current (tasks s ! i)) (host (world s)) = (fetched, h)"
      by (cases "fetchApi env (current (tasks s ! i)) (host (world s))") auto
    show ?thesis
    proof (cases "extract_settle env fetched")
      case (ExtractFailure e)
      then show ?thesis using Fetching f t w file_done_same[OF same_host[OF assms]]
        by (simp add: resume_def)
    next
      case (ExtractSuccess wj pj i0)
      show ?thesis
      proof (cases "load_begin env wj pj (file_name (current (tasks s ! i)))")
        case (LoadDone res)
        then show ?thesis using Fetching f t w ExtractSuccess file_done_same[OF same_host[OF assms]]
          by (simp add: resume_def)
      next
        case (LoadCall g title)
        then show ?thesis using Fetching f t w ExtractSuccess assms
          by (simp add: resume_def same_but_status_def)
      qed
    qed
  next
    case (Loading g title)
    obtain thrown h where f: "loadGraphData env g True True title (host (world s)) = (thrown, h)"
      by (cases "loadGraphData env g True True title (host (world s))") auto
    then show ?thesis using Loading t w file_done_same[OF same_host[OF assms]]
      by (simp add: resume_def)
  qed
qed

lemma begin_same:
  assumes "isOpen d' = isOpen d" "isProcessing d' = isProcessing d"
    "overlay_display d' = overlay_display d" "(statusEl d' = None) = (statusEl d = None)"
  shows "snd (handleFileSelect_begin files d') = snd (handleFileSelect_begin files d)"
  using assms
  by (auto simp: handleFileSelect_begin_def Let_def split: option.splits)

lemma step_Select_Some:
  assumes "handleFileSelect_begin files (dialog s) = (d1, Some fs)"
  shows "step env (Select files) s =
           (case snd (next_iteration fs fs locals0 (s\<lparr>dialog := d1\<rparr>)) of
              None \<Rightarrow> fst (next_iteration fs fs locals0 (s\<lparr>dialog := d1\<rparr>))
            | Some t \<Rightarrow>
                (fst (next_iteration fs fs locals0 (s\<lparr>dialog := d1\<rparr>)))
                  \<lparr>tasks := tasks (fst (next_iteration fs fs locals0 (s\<lparr>dialog := d1\<rparr>))) @ [t]\<rparr>)"
  using assms
  by (cases "next_iteration fs fs locals0 (s\<lparr>dialog := d1\<rparr>)")
     (auto simp: step_def split: option.splits)

lemma step_same:
  assumes "same_but_status s s'"
  shows "same_but_status (step env ev s) (step env ev s')"
proof (cases ev)
  case Toggle
  then show ?thesis using assms
    by (simp add: same_but_status_def step_def toggle_def close_def show_dialog_def)
next
  case Show
  then show ?thesis using assms by (simp add: same_but_status_def step_def show_dialog_def)
next
  case Close
  then show ?thesis using assms by (simp add: same_but_status_def step_def close_def)
next
  case (Timeout i)
  then show ?thesis using assms by (simp add: same_but_status_def step_def close_def)
next
  case (Resume i)
  then show ?thesis using assms resume_same[OF assms, of env i]
    by (simp add: step_def same_but_status_def)
next
  case (Select files)
  obtain d1 r where b: "handleFileSelect_begin files (dialog s) = (d1, r)"
    by (cases "handleFileSelect_begin files (dialog s)") auto
  obtain d1' r' where b': "handleFileSelect_begin files (dialog s') = (d1', r')"
    by (cases "handleFileSelect_begin files (dialog s')") auto
  have r: "r' = r" using begin_same[of "dialog s'" "dialog s" files] assms b b'
    by (simp add: same_but_status_def)
  have same1: "same_but_status (s\<lparr>dialog := d1\<rparr>) (s'\<lparr>dialog := d1'\<rparr>)"
    using assms begin_flags[OF b] begin_flags[OF b'] r by (simp add: same_but_status_def)
  show ?thesis
  proof (cases r)
    case None
    then show ?thesis using Select b b' r same1 by (simp add: step_def)
  next
    case (Some fs)
    let ?n = "next_iteration fs fs locals0 (s\<lparr>dialog := d1\<rparr>)"
    let ?n' = "next_iteration fs fs locals0 (s'\<lparr>dialog := d1'\<rparr>)"
    from next_iteration_same[OF same1, of fs fs locals0]
    have e: "snd ?n' = snd ?n" and sm: "same_but_status (fst ?n) (fst ?n')" by simp_all
    have t1: "tasks (fst ?n') = tasks (fst ?n)" using sm by (simp add: same_but_status_def)
    show ?thesis
    proof (cases "snd ?n")
      case None
      have "step env ev s = fst ?n"
        using Select step_Select_Some[of files s d1 fs env] b \<open>r = Some fs\<close> None by simp
      moreover have "step env ev s' = fst ?n'"
        using Select step_Select_Some[of files s' d1' fs env] b' r \<open>r = Some fs\<close> None e by simp
      ultimately show ?thesis using sm by simp
    next
      case (Some t)
      have "step env ev s = (fst ?n)\<lparr>tasks := tasks (fst ?n) @ [t]\<rparr>"
        using Select step_Select_Some[of files s d1 fs env] b \<open>r = Some fs\<close> Some by simp
      moreover have "step env ev s' = (fst ?n')\<lparr>tasks := tasks (fst ?n) @ [t]\<rparr>"
        using Select step_Select_Some[of files s' d1' fs env] b' r \<open>r = Some fs\<close> Some e t1 by simp
      ultimately show ?thesis using same_tasks_update[OF sm] by simp
    qed
  qed
qed

lemma run_same:
  "same_but_status s s' \<Longrightarrow> same_but_status (run env evs s) (run env evs s')"
  by (induction evs arbitrary: s s') (simp_all add: step_same)

text \<open>
  C4 (as the code has it). A selection handled while \<open>isProcessing\<close> is true starts no
  batch, makes no call, sets no timer and leaves the flags alone; whatever events
  follow, the system evolves as it would have without it, up to the text of the status
  area. A non-empty selection shows the warning "Please wait for current import to
  complete..."; an absent or empty one changes nothing at all.
\<close>

theorem busy_submission_rejected:
  assumes "isProcessing (dialog s)"
      and "s' = step env (Select files) s"
  shows "tasks s' = tasks s \<and> world s' = world s \<and> timers s' = timers s
       \<and> isOpen (dialog s') = isOpen (dialog s) \<and> isProcessing (dialog s')
       \<and> overlay_display (dialog s') = overlay_display (dialog s)
       \<and> same_but_status (run env evs s) (run env evs s')
       \<and> (files = None \<or> files = Some [] \<longrightarrow> s' = s)
       \<and> (\<forall>fs. files = Some fs \<and> fs \<noteq> [] \<longrightarrow>
            statusEl (dialog s') =
              map_option (\<lambda>el. el\<lparr>display := ''block'',
                        textContent := ''Please wait for current import to complete...'',
                        whiteSpace := ''pre-wrap'', color := colors Warning\<rparr>) (statusEl (dialog s)))"
proof -
  obtain d1 r where b: "handleFileSelect_begin files (dialog s) = (d1, r)"
    by (cases "handleFileSelect_begin files (dialog s)") auto
  have r: "r = None" using b assms(1)
    by (auto simp: handleFileSelect_begin_def split: option.splits if_splits)
  then have s': "s' = s\<lparr>dialog := d1\<rparr>" using assms(2) b by (simp add: step_def)
  have same: "same_but_status s s'"
    using s' begin_flags[OF b] r by (simp add: same_but_status_def)
  have e: "files = None \<or> files = Some [] \<longrightarrow> s' = s"
    using begin_empty[of files "dialog s"] b s' by auto
  have w: "\<forall>fs. files = Some fs \<and> fs \<noteq> [] \<longrightarrow>
            statusEl (dialog s') =
              map_option (\<lambda>el. el\<lparr>display := ''block'',
                        textContent := ''Please wait for current import to complete...'',
                        whiteSpace := ''pre-wrap'', color := colors Warning\<rparr>) (statusEl (dialog s))"
    using begin_busy[OF _ assms(1)] b s' by (auto simp: showStatus_statusEl)
  from same run_same[OF same] e w assms(1) show ?thesis by (simp add: same_but_status_def)
qed


section \<open>The event loop agrees with the sequential reading\<close>

lemma drain_0 [simp]: "drain env 0 s = s"
  by (simp add: drain_def)

lemma drain_Suc [simp]: "drain env (Suc n) s = drain env n (step env (Resume 0) s)"
  by (simp add: drain_def)

lemma drain_idle: "tasks s = [] \<Longrightarrow> drain env n s = s"
  by (induction n) (simp_all add: step_def)

lemma after_file_eq:
  "after_file env batch f rest v d ts wd =
     (case rest of
        [] \<Rightarrow> finished (count_outcome f (fst (processImageFile env f wd)) v)
                (showStatus (''Processing: '' @ file_name f @ ''...'') Info d) ts
                (snd (processImageFile env f wd))
      | f' # rest' \<Rightarrow> waiting batch f' rest' (count_outcome f (fst (processImageFile env f wd)) v)
                (showStatus (''Processing: '' @ file_name f @ ''...'') Info d) ts
                (snd (processImageFile env f wd)))"
  by (cases "processImageFile env f wd"; cases rest; simp add: after_file_def loop_body_def)

lemma one_file:
  "step env (Resume 0) (waiting batch f rest v d ts wd) = after_file env batch f rest v d ts wd
   \<or> (tasks (step env (Resume 0) (waiting batch f rest v d ts wd)) \<noteq> []
      \<and> step env (Resume 0) (step env (Resume 0) (waiting batch f rest v d ts wd))
          = after_file env batch f rest v d ts wd)"
proof -
  obtain fetched h where f: "fetchApi env f (host wd) = (fetched, h)"
    by (cases "fetchApi env f (host wd)") auto
  show ?thesis
  proof (cases "extract_settle env fetched")
    case (ExtractFailure e)
    then have "step env (Resume 0) (waiting batch f rest v d ts wd) = after_file env batch f rest v d ts wd"
      using f unfolding after_file_eq
      by (cases rest)
         (simp_all add: step_def resume_def waiting_def finished_def file_done_def
           next_iteration_def processImageFile_def extractWorkflowFromData_def call_fetchApi_def
           remove_nth_def split: prod.splits)
    then show ?thesis by simp
  next
    case (ExtractSuccess wj pj i0)
    show ?thesis
    proof (cases "load_begin env wj pj (file_name f)")
      case (LoadDone res)
      then have "step env (Resume 0) (waiting batch f rest v d ts wd) = after_file env batch f rest v d ts wd"
        using f ExtractSuccess unfolding after_file_eq
        by (cases rest)
           (auto simp: step_def resume_def waiting_def finished_def file_done_def
             next_iteration_def processImageFile_def extractWorkflowFromData_def call_fetchApi_def
             loadWorkflow_def load_begin_def remove_nth_def split: prod.splits sum.splits if_splits)
      then show ?thesis by simp
    next
      case (LoadCall g title)
      obtain thrown h2 where l: "loadGraphData env g True True title h = (thrown, h2)"
        by (cases "loadGraphData env g True True title h") auto
      have 1: "step env (Resume 0) (waiting batch f rest v d ts wd) =
          \<lparr>dialog = showStatus (''Processing: '' @ file_name f @ ''...'') Info d,
           tasks = [\<lparr>imageFiles = batch, current = f, awaits = Loading g title, todo = rest, vars = v\<rparr>],
           timers = ts,
           world = \<lparr>calls = calls wd @ [FetchApi f, LoadGraphData g True True title], host = h\<rparr>\<rparr>"
        using f ExtractSuccess LoadCall
        by (simp add: step_def resume_def waiting_def)
      have 2: "step env (Resume 0) \<lparr>dialog = showStatus (''Processing: '' @ file_name f @ ''...'') Info d,
           tasks = [\<lparr>imageFiles = batch, current = f, awaits = Loading g title, todo = rest, vars = v\<rparr>],
           timers = ts,
           world = \<lparr>calls = calls wd @ [FetchApi f, LoadGraphData g True True title], host = h\<rparr>\<rparr> = after_file env batch f rest v d ts wd"
        using f ExtractSuccess LoadCall l unfolding after_file_eq
        by (cases rest)
           (auto simp: step_def resume_def waiting_def finished_def file_done_def
             next_iteration_def processImageFile_def extractWorkflowFromData_def call_fetchApi_def
             loadWorkflow_def load_begin_def load_settle_def call_loadGraphData_def remove_nth_def
             split: prod.splits sum.splits if_splits option.splits)
      from 1 2 show ?thesis by simp
    qed
  qed
qed


lemma finished_tasks [simp]: "tasks (finished v d ts wd) = []"
  by (simp add: finished_def)

lemma drain_two:
  assumes "step env (Resume 0) s = x \<or> (tasks (step env (Resume 0) s) \<noteq> [] \<and> step env (Resume 0) (step env (Resume 0) s) = x)"
    and "2 \<le> n"
  shows "\<exists>k. (k = 1 \<or> k = 2) \<and> drain env n s = drain env (n - k) x"
proof -
  from assms(2) obtain m where n: "n = Suc (Suc m)" by (metis Suc_le_D numeral_2_eq_2 Suc_le_mono)
  from assms(1) show ?thesis
  proof
    assume "step env (Resume 0) s = x"
    then have "drain env n s = drain env (n - 1) x" using n by simp
    then show ?thesis by blast
  next
    assume "tasks (step env (Resume 0) s) \<noteq> [] \<and> step env (Resume 0) (step env (Resume 0) s) = x"
    then have "drain env n s = drain env (n - 2) x" using n by simp
    then show ?thesis by blast
  qed
qed

lemma drain_waiting:
  "2 * Suc (length rest) \<le> n \<Longrightarrow>
   drain env n (waiting batch f rest v d ts wd)
     = (case for_loop env (f # rest) (d, v, wd) of (d2, v2, wd2) \<Rightarrow> finished v2 d2 ts wd2)"
proof (induction rest arbitrary: f v d wd n)
  case Nil
  obtain d1 v1 wd1 where b: "loop_body env f (d, v, wd) = (d1, v1, wd1)"
    by (cases "loop_body env f (d, v, wd)") auto
  then have x: "after_file env batch f [] v d ts wd = finished v1 d1 ts wd1"
    by (simp add: after_file_def)
  from Nil have "2 \<le> n" by simp
  from drain_two[OF one_file[of env batch f "[]" v d ts wd] this] x
  have "drain env n (waiting batch f [] v d ts wd) = finished v1 d1 ts wd1"
    by (auto simp: drain_idle)
  then show ?case using b by simp
next
  case (Cons f' rest')
  obtain d1 v1 wd1 where b: "loop_body env f (d, v, wd) = (d1, v1, wd1)"
    by (cases "loop_body env f (d, v, wd)") auto
  then have x: "after_file env batch f (f' # rest') v d ts wd = waiting batch f' rest' v1 d1 ts wd1"
    by (simp add: after_file_def)
  from Cons.prems have n: "2 \<le> n" by simp
  from drain_two[OF one_file[of env batch f "f' # rest'" v d ts wd] n] x
  obtain k where k: "k = 1 \<or> k = 2"
    and d: "drain env n (waiting batch f (f' # rest') v d ts wd)
          = drain env (n - k) (waiting batch f' rest' v1 d1 ts wd1)"
    by auto
  from k Cons.prems have "2 * Suc (length rest') \<le> n - k" by auto
  from Cons.IH[OF this, of f' v1 d1 wd1] d b show ?case by simp
qed

text \<open>
  Handled alone, a selection takes the event loop where the sequential reading of
  \<open>handleFileSelect\<close> says: the same dialog, timers and world, and no invocation left,
  once its promises have settled (at most two per image file).
\<close>

theorem uninterrupted_invocation:
  assumes "tasks s = []"
      and "\<forall>fs. files = Some fs \<longrightarrow> 2 * length (filter is_image fs) \<le> n"
  shows "drain env n (step env (Select files) s)
       = (case handleFileSelect env files (dialog s) (world s) of
            (d', ts, wd') \<Rightarrow> s\<lparr>dialog := d', timers := timers s @ ts, world := wd'\<rparr>)"
proof -
  obtain d1 r where b: "handleFileSelect_begin files (dialog s) = (d1, r)"
    by (cases "handleFileSelect_begin files (dialog s)") auto
  show ?thesis
  proof (cases r)
    case None
    then show ?thesis using b assms(1)
      by (simp add: step_def handleFileSelect_def drain_idle)
  next
    case (Some imgs)
    with b obtain fs0 where f0: "files = Some fs0" "imgs = filter is_image fs0" "imgs \<noteq> []"
      by (auto simp: handleFileSelect_begin_def Let_def split: option.splits if_splits)
    obtain f rest where c: "imgs = f # rest" using f0(3) by (cases imgs) auto
    have st: "step env (Select files) s = waiting imgs f rest locals0 d1 (timers s) (world s)"
      using b Some c assms(1) by (simp add: step_def next_iteration_def waiting_def)
    have "length imgs = Suc (length rest)" using c by simp
    with assms(2) f0(1,2) have "2 * Suc (length rest) \<le> n" by metis
    from drain_waiting[OF this, of env imgs f locals0 d1 "timers s" "world s"]
    show ?thesis using st b Some c assms(1)
      by (simp add: handleFileSelect_def finished_def split: prod.splits)
  qed
qed

section \<open>The importer at work\<close>

lemmas eval_defs =
  step_def resume_def file_done_def next_iteration_def show_dialog_def close_def toggle_def
  init_def new_dialog_def handleFileSelect_begin_def is_image_def png_def notes_txt_def
  showStatus_def loop_body_def count_outcome_def processImageFile_def
  extractWorkflowFromData_def call_fetchApi_def extract_settle_def extract_try_def
  good_env_def mixed_env_def demo_env_def http_def get_property_def js_or_def
  loadWorkflow_def load_begin_def load_settle_def graphData_of_def parse_if_string_def
  graph_def call_loadGraphData_def handleFileSelect_end_def handleFileSelect_def locals0_def
  remove_nth_def world0_def tabName_def ext_char_def string_of_nat.simps digit_char_def
  check_mark_def newline_def


theorem batch_counts_every_image_file_witness:
  "fst (snd (for_loop mixed_env (filter is_image [png ''a.png'', notes_txt, png ''b.png'', png ''c.png''])
          (show_dialog new_dialog, locals0, world0)))
     = \<lparr>successCount = 2, failCount = 1,
        errors = [''b.png: only Automatic1111 parameters found'']\<rparr>
   \<and> filter is_fetch (calls (snd (snd (for_loop mixed_env
          (filter is_image [png ''a.png'', notes_txt, png ''b.png'', png ''c.png''])
          (show_dialog new_dialog, locals0, world0)))))
     = [FetchApi (png ''a.png''), FetchApi (png ''b.png''), FetchApi (png ''c.png'')]"
proof -
  have v: "fst (snd (for_loop mixed_env (filter is_image [png ''a.png'', notes_txt, png ''b.png'', png ''c.png''])
          (show_dialog new_dialog, locals0, world0)))
     = \<lparr>successCount = 2, failCount = 1,
        errors = [''b.png: only Automatic1111 parameters found'']\<rparr>"
    by (simp add: eval_defs)
  have f: "filter is_image [png ''a.png'', notes_txt, png ''b.png'', png ''c.png'']
         = [png ''a.png'', png ''b.png'', png ''c.png'']"
    by (simp add: is_image_def png_def notes_txt_def)
  have c: "calls world0 = []" by (simp add: world0_def)
  from batch_counts_every_image_file
    [where env = mixed_env and fs = "[png ''a.png'', notes_txt, png ''b.png'', png ''c.png'']"
       and d = "show_dialog new_dialog" and wd = world0 and evs = "[]"]
  have "filter is_fetch (calls (snd (snd (for_loop mixed_env
          (filter is_image [png ''a.png'', notes_txt, png ''b.png'', png ''c.png''])
          (show_dialog new_dialog, locals0, world0)))))
     = [FetchApi (png ''a.png''), FetchApi (png ''b.png''), FetchApi (png ''c.png'')]"
    unfolding f c by (simp split: prod.splits)
  with v show ?thesis by simp
qed

theorem processing_implies_open_witness:
  "selects_while_open good_env [Show, Select (Some [png ''a.png''])] (init world0)
   \<and> isProcessing (dialog (run good_env [Show, Select (Some [png ''a.png''])] (init world0)))
   \<and> isOpen (dialog (run good_env [Show, Select (Some [png ''a.png''])] (init world0)))"
proof -
  have a: "selects_while_open good_env [Show, Select (Some [png ''a.png''])] (init world0)"
    by (simp add: step_def show_dialog_def init_def)
  have b: "isProcessing (dialog (run good_env [Show, Select (Some [png ''a.png''])] (init world0)))"
    by (simp add: eval_defs)
  from processing_implies_open[OF a] a b show ?thesis by blast
qed

text \<open>
  C9 (as the spec words it) fails: \<open>handleFileSelect\<close> does not look at \<open>isOpen\<close>.
  Called after \<open>close()\<close> it sets \<open>isProcessing\<close> on a closed dialog. The same happens
  without a direct call: a batch succeeds and sets the timer, the timer closes the
  dialog while the file picker is still up, and the selection arrives afterwards.
\<close>

theorem processing_while_closed_counterexample:
  "isProcessing (dialog (run good_env [Show, Close, Select (Some [png ''a.png''])] (init world0)))
   \<and> \<not> isOpen (dialog (run good_env [Show, Close, Select (Some [png ''a.png''])] (init world0)))
   \<and> isOpen (dialog (run good_env
        [Show, Select (Some [png ''a.png'']), Resume 0, Resume 0] (init world0)))
   \<and> timers (run good_env
        [Show, Select (Some [png ''a.png'']), Resume 0, Resume 0] (init world0)) = [1500]
   \<and> isProcessing (dialog (run good_env
        [Show, Select (Some [png ''a.png'']), Resume 0, Resume 0, Timeout 0, Select (Some [png ''b.png''])]
        (init world0)))
   \<and> \<not> isOpen (dialog (run good_env
        [Show, Select (Some [png ''a.png'']), Resume 0, Resume 0, Timeout 0, Select (Some [png ''b.png''])]
        (init world0)))"
  by (simp add: eval_defs)

text \<open>
  A batch of two images that both carry a workflow: the success message, one timer of
  1500 ms, the dialog still open with \<open>isProcessing\<close> false, and closed once the timer
  has fired.
\<close>

theorem completed_batch_classification_witness:
  "timers (run good_env
       [Show, Select (Some [png ''a.png'', png ''b.png'']), Resume 0, Resume 0, Resume 0, Resume 0]
       (init world0)) = [1500]
   \<and> \<not> isProcessing (dialog (run good_env
       [Show, Select (Some [png ''a.png'', png ''b.png'']), Resume 0, Resume 0, Resume 0, Resume 0]
       (init world0)))
   \<and> isOpen (dialog (run good_env
       [Show, Select (Some [png ''a.png'', png ''b.png'']), Resume 0, Resume 0, Resume 0, Resume 0]
       (init world0)))
   \<and> statusEl (dialog (run good_env
       [Show, Select (Some [png ''a.png'', png ''b.png'']), Resume 0, Resume 0, Resume 0, Resume 0]
       (init world0)))
     = Some \<lparr>display = ''block'',
             textContent = check_mark @ '' Successfully imported 2 workflow(s)!'',
             whiteSpace = ''pre-wrap'', color = ''#4CAF50''\<rparr>
   \<and> \<not> isOpen (dialog (run good_env
       [Show, Select (Some [png ''a.png'', png ''b.png'']), Resume 0, Resume 0, Resume 0, Resume 0,
        Timeout 0]
       (init world0)))"
proof -
  define s3 where "s3 = run good_env
    [Show, Select (Some [png ''a.png'', png ''b.png'']), Resume 0, Resume 0, Resume 0] (init world0)"
  define s where "s = s3\<lparr>world := (world s3)\<lparr>host := 4\<rparr>\<rparr>"
  define v where "v = \<lparr>successCount = 2, failCount = 0, errors = []\<rparr>"
  define s' where "s' = fst (next_iteration [png ''a.png'', png ''b.png''] [] v s)"
  have r: "run good_env
       [Show, Select (Some [png ''a.png'', png ''b.png'']), Resume 0, Resume 0, Resume 0, Resume 0]
       (init world0) = s'\<lparr>tasks := []\<rparr>"
    by (simp add: s'_def s_def s3_def v_def eval_defs)
  have r2: "run good_env
       [Show, Select (Some [png ''a.png'', png ''b.png'']), Resume 0, Resume 0, Resume 0, Resume 0,
        Timeout 0] (init world0) = step good_env (Timeout 0) (s'\<lparr>tasks := []\<rparr>)"
    using r by (simp add: run_def)
  have p: "timers s = []" "isOpen (dialog s)"
    "statusEl (dialog s) = Some \<lparr>display = ''block'', textContent = ''Processing: b.png...'',
             whiteSpace = ''pre-wrap'', color = ''#ccc''\<rparr>"
    by (simp_all add: s_def s3_def eval_defs)
  have v: "0 < successCount v" "failCount v = 0" "string_of_nat (successCount v) = ''2''"
    by (simp_all add: v_def string_of_nat.simps digit_char_def)
  from completed_batch_classification[OF s'_def, of good_env] p v
  have "\<not> isProcessing (dialog s') \<and> isOpen (dialog s')
      \<and> statusEl (dialog s') = Some \<lparr>display = ''block'',
             textContent = check_mark @ '' Successfully imported 2 workflow(s)!'',
             whiteSpace = ''pre-wrap'', color = ''#4CAF50''\<rparr>
      \<and> timers s' = [1500]"
    by simp
  then show ?thesis unfolding r2 unfolding r by (simp add: step_def close_def)
qed

text \<open>A batch with one failure out of two, and a batch of one file that fails.\<close>

lemma partial_and_failed_batch_examples:
  "statusEl (dialog (run mixed_env
       [Show, Select (Some [png ''a.png'', png ''b.png'']), Resume 0, Resume 0, Resume 0]
       (init world0)))
     = Some \<lparr>display = ''block'',
             textContent = ''Imported 1 workflow(s), 1 failed:'' @ newline
               @ ''b.png: only Automatic1111 parameters found'',
             whiteSpace = ''pre-wrap'', color = ''#FF9800''\<rparr>
   \<and> timers (run mixed_env
       [Show, Select (Some [png ''a.png'', png ''b.png'']), Resume 0, Resume 0, Resume 0]
       (init world0)) = []
   \<and> isOpen (dialog (run mixed_env
       [Show, Select (Some [png ''a.png'', png ''b.png'']), Resume 0, Resume 0, Resume 0]
       (init world0)))
   \<and> statusEl (dialog (run mixed_env [Show, Select (Some [png ''b.png'']), Resume 0]
       (init world0)))
     = Some \<lparr>display = ''block'',
             textContent = ''Failed to import workflows:'' @ newline
               @ ''b.png: only Automatic1111 parameters found'',
             whiteSpace = ''pre-wrap'', color = ''#F44336''\<rparr>
   \<and> timers (run mixed_env [Show, Select (Some [png ''b.png'']), Resume 0]
       (init world0)) = []
   \<and> isOpen (dialog (run mixed_env [Show, Select (Some [png ''b.png'']), Resume 0]
       (init world0)))"
  by (simp add: eval_defs)


theorem no_image_files_no_batch_witness:
  "handleFileSelect good_env None (show_dialog new_dialog) world0
     = (show_dialog new_dialog, [], world0)
   \<and> handleFileSelect good_env (Some [notes_txt]) (show_dialog new_dialog) world0
     = ((show_dialog new_dialog)
          \<lparr>statusEl := Some \<lparr>display = ''block'', textContent = ''No valid image files selected.'',
                              whiteSpace = ''pre-wrap'', color = ''#F44336''\<rparr>\<rparr>,
        [], world0)
   \<and> tasks (step good_env (Select (Some [notes_txt])) (run good_env [Show] (init world0))) = []
   \<and> world (step good_env (Select (Some [notes_txt])) (run good_env [Show] (init world0))) = world0"
proof -
  note t = no_image_files_no_batch
    [where env = good_env and d = "show_dialog new_dialog" and wd = world0
       and s = "run good_env [Show] (init world0)" and fs = "[notes_txt]" and files = None]
  have f: "filter is_image [notes_txt] = []" by (simp add: is_image_def notes_txt_def)
  have p: "\<not> isProcessing (show_dialog new_dialog)"
    "statusEl (show_dialog new_dialog)
       = Some \<lparr>display = ''none'', textContent = [], whiteSpace = [], color = ''#ccc''\<rparr>"
    "\<not> isProcessing (dialog (run good_env [Show] (init world0)))"
    "tasks (run good_env [Show] (init world0)) = []"
    "world (run good_env [Show] (init world0)) = world0"
    by (simp_all add: show_dialog_def new_dialog_def step_def init_def)
  have 1: "handleFileSelect good_env None (show_dialog new_dialog) world0
     = (show_dialog new_dialog, [], world0)"
    using t by simp
  have 2: "handleFileSelect good_env (Some [notes_txt]) (show_dialog new_dialog) world0
     = ((show_dialog new_dialog)
          \<lparr>statusEl := Some \<lparr>display = ''block'', textContent = ''No valid image files selected.'',
                              whiteSpace = ''pre-wrap'', color = ''#F44336''\<rparr>\<rparr>,
        [], world0)"
    using t f p by simp
  have 3: "tasks (step good_env (Select (Some [notes_txt])) (run good_env [Show] (init world0))) = []
    \<and> world (step good_env (Select (Some [notes_txt])) (run good_env [Show] (init world0))) = world0"
    using t f p by simp
  from 1 2 3 show ?thesis by blast
qed

text \<open>
  C3 (as the spec words it) fails on an empty and on an absent selection: the call
  returns before anything is shown, and the status area stays hidden and empty, so no
  validation error is reported.
\<close>

theorem empty_selection_counterexample:
  "handleFileSelect good_env (Some []) (show_dialog new_dialog) world0
     = (show_dialog new_dialog, [], world0)
   \<and> handleFileSelect good_env None (show_dialog new_dialog) world0
     = (show_dialog new_dialog, [], world0)
   \<and> statusEl (show_dialog new_dialog)
     = Some \<lparr>display = ''none'', textContent = [], whiteSpace = [], color = ''#ccc''\<rparr>"
  by (simp add: handleFileSelect_def handleFileSelect_begin_def show_dialog_def)

theorem busy_submission_rejected_witness:
  "isProcessing (dialog (run good_env [Show, Select (Some [png ''a.png''])] (init world0)))
   \<and> tasks (run good_env [Show, Select (Some [png ''a.png'']), Select (Some [png ''b.png''])] (init world0))
     = tasks (run good_env [Show, Select (Some [png ''a.png''])] (init world0))
   \<and> calls (world (run good_env
        [Show, Select (Some [png ''a.png'']), Select (Some [png ''b.png''])] (init world0)))
     = [FetchApi (png ''a.png'')]
   \<and> statusEl (dialog (run good_env
        [Show, Select (Some [png ''a.png'']), Select (Some [png ''b.png''])] (init world0)))
     = Some \<lparr>display = ''block'', textContent = ''Please wait for current import to complete...'',
             whiteSpace = ''pre-wrap'', color = ''#FF9800''\<rparr>"
proof -
  define s where "s = run good_env [Show, Select (Some [png ''a.png''])] (init world0)"
  have p: "isProcessing (dialog s)" by (simp add: s_def eval_defs)
  have w: "calls (world s) = [FetchApi (png ''a.png'')]" by (simp add: s_def eval_defs)
  have el: "statusEl (dialog s) = Some \<lparr>display = ''block'', textContent = ''Processing: a.png...'',
             whiteSpace = ''pre-wrap'', color = ''#ccc''\<rparr>"
    by (simp add: s_def eval_defs)
  have r: "run good_env [Show, Select (Some [png ''a.png'']), Select (Some [png ''b.png''])] (init world0)
       = step good_env (Select (Some [png ''b.png''])) s"
    by (simp add: s_def)
  from busy_submission_rejected[OF p refl, of good_env "Some [png ''b.png'']" "[]"] p w el
  show ?thesis unfolding r s_def[symmetric] by simp
qed

text \<open>
  C4 (as the spec words it) fails on an empty selection handled during a batch: the
  call returns before the \<open>isProcessing\<close> test, and the status area keeps the progress
  message; no warning is reported.
\<close>

theorem busy_empty_selection_counterexample:
  "isProcessing (dialog (run good_env [Show, Select (Some [png ''a.png''])] (init world0)))
   \<and> step good_env (Select (Some [])) (run good_env [Show, Select (Some [png ''a.png''])] (init world0))
     = run good_env [Show, Select (Some [png ''a.png''])] (init world0)
   \<and> statusEl (dialog (step good_env (Select (Some []))
        (run good_env [Show, Select (Some [png ''a.png''])] (init world0))))
     = Some \<lparr>display = ''block'', textContent = ''Processing: a.png...'',
             whiteSpace = ''pre-wrap'', color = ''#ccc''\<rparr>"
  by (simp add: eval_defs)

end
